theory Spec2Isabelle
  imports Main "HOL-Library.Word"
begin

unbundle bit_operations_syntax

section \<open>Configuration and data model\<close>

text \<open>
  The library's global configuration variables; of \<^verbatim>\<open>otpw_pseudouser\<close> the home
  directory, the uid and the gid. The size of the handle's challenge buffer
  (\<^verbatim>\<open>sizeof(ch->challenge)\<close>) comes from the header \<^verbatim>\<open>otpw.h\<close>, which is not part of the
  sources at hand, so it is a field of the configuration as well. The lock timeout is a
  number of seconds.
\<close>

record config =
  otpw_file :: string
  otpw_locksuffix :: string
  otpw_multi :: int
  otpw_locktimeout :: int
  otpw_hlen :: int
  otpw_magic :: string
  otpw_pseudouser :: "(string \<times> nat \<times> nat) option"
  challenge_size :: nat

definition default_config :: config where
  "default_config = \<lparr> otpw_file = ''.otpw'', otpw_locksuffix = ''.lock'', otpw_multi = 3,
     otpw_locktimeout = 24 * 60 * 60, otpw_hlen = 12, otpw_magic = ''OTPW1'' @ [CHR 0x0A],
     otpw_pseudouser = None, challenge_size = 81 \<rparr>"

type_synonym byte = "8 word"

text \<open>
  A pointer to allocated storage: the null pointer, a pointer to live storage with its
  contents, or a dangling pointer to storage that was released. \<^verbatim>\<open>free\<close> leaves the
  null pointer alone, releases live storage, and is undefined on a dangling pointer
  (\<open>None\<close>).
\<close>

datatype 'a ptr = Null | Live 'a | Freed

definition free_ptr :: "'a ptr \<Rightarrow> 'a ptr option" where
  "free_ptr p = (case p of Null \<Rightarrow> Some Null | Live x \<Rightarrow> Some Freed | Freed \<Rightarrow> None)"

text \<open>\<^verbatim>\<open>struct challenge\<close>. The array \<^verbatim>\<open>selection\<close> holds integers, the array \<^verbatim>\<open>hash\<close>
  holds pointers to strings that are null (\<open>None\<close>) or allocated; strings are C strings,
  the bytes before the terminating zero byte. Diagnostic output (\<^verbatim>\<open>DEBUG_LOG\<close>) is not
  modelled.\<close>

record challenge =
  challenge :: string
  passwords :: int
  locked :: bool
  entries :: int
  pwlen :: int
  challen :: int
  hlen :: int
  remaining :: int
  uid :: nat
  gid :: nat
  selection :: "int list ptr"
  hash :: "string option list ptr"
  flags :: int
  filename :: "string ptr"
  lockfilename :: "string ptr"

datatype verdict = OTPW_OK | OTPW_WRONG | OTPW_ERROR

text \<open>
  The part of the system a verification touches: regular files by path (as far as the
  acting identity can open them), symbolic links by path with their targets, and the
  credentials of the process.
\<close>

record world =
  files :: "string \<rightharpoonup> string"
  links :: "string \<rightharpoonup> string"
  ruid :: nat
  euid :: nat
  suid :: nat
  rgid :: nat
  egid :: nat
  sgid :: nat

definition seteuid :: "nat \<Rightarrow> world \<Rightarrow> world" where
  "seteuid u w = (if euid w = 0 \<or> u = ruid w \<or> u = euid w \<or> u = suid w
                  then w\<lparr>euid := u\<rparr> else w)"

definition setegid :: "nat \<Rightarrow> world \<Rightarrow> world" where
  "setegid g w = (if euid w = 0 \<or> g = rgid w \<or> g = egid w \<or> g = sgid w
                  then w\<lparr>egid := g\<rparr> else w)"

definition unlink :: "string \<Rightarrow> world \<Rightarrow> world" where
  "unlink p w = w\<lparr>links := (links w)(p := None)\<rparr>"

text \<open>
  \<^verbatim>\<open>otpw_free\<close>: the four pointers of the handle are released and left as they are, so
  they dangle afterwards. The loop over \<^verbatim>\<open>ch->hash[i]\<close> reads \<^verbatim>\<open>otpw_multi\<close> slots of the
  array. The result is \<open>None\<close> where the behaviour of the C code is undefined (storage
  released twice, or read after its release or out of bounds).
\<close>

definition free_hash :: "config \<Rightarrow> string option list ptr \<Rightarrow> string option list ptr option" where
  "free_hash cfg p = (case p of
       Null \<Rightarrow> Some Null
     | Live arr \<Rightarrow> if nat (otpw_multi cfg) \<le> length arr then Some Freed else None
     | Freed \<Rightarrow> None)"

definition otpw_free :: "config \<Rightarrow> challenge \<Rightarrow> challenge option" where
  "otpw_free cfg ch =
     (case free_ptr (selection ch) of None \<Rightarrow> None | Some s \<Rightarrow>
     (case free_hash cfg (hash ch) of None \<Rightarrow> None | Some h \<Rightarrow>
     (case free_ptr (filename ch) of None \<Rightarrow> None | Some f \<Rightarrow>
     (case free_ptr (lockfilename ch) of None \<Rightarrow> None | Some l \<Rightarrow>
        Some (ch\<lparr>selection := s, hash := h, filename := f, lockfilename := l\<rparr>)))))"

section \<open>C strings and text streams\<close>

definition NUL :: char where
  "NUL = CHR 0x00"

definition NL :: char where
  "NL = CHR 0x0A"

definition cstr :: "string \<Rightarrow> string" where
  "cstr s = takeWhile (\<lambda>c. c \<noteq> NUL) s"

text \<open>A stream opened on a file: the bytes before the position and the bytes from it on.\<close>

type_synonym stream = "string \<times> string"

fun fgets_aux :: "nat \<Rightarrow> string \<Rightarrow> string \<times> string" where
  "fgets_aux 0 s = ([], s)"
| "fgets_aux (Suc n) [] = ([], [])"
| "fgets_aux (Suc n) (c # s) =
     (if c = NL then ([c], s) else (let (l, r) = fgets_aux n s in (c # l, r)))"

definition fgets :: "nat \<Rightarrow> stream \<Rightarrow> (string \<times> stream) option" where
  "fgets sz st = (case st of (before, rest) \<Rightarrow>
     if rest = [] then None
     else (let (l, r) = fgets_aux (sz - 1) rest in Some (l, (before @ l, r))))"

definition fputc :: "char \<Rightarrow> stream \<Rightarrow> stream" where
  "fputc c st = (case st of (before, rest) \<Rightarrow> (before @ [c], drop 1 rest))"

definition fclose :: "stream \<Rightarrow> string" where
  "fclose st = (case st of (before, rest) \<Rightarrow> before @ rest)"

subsection \<open>The header line: \<^verbatim>\<open>sscanf(line, "%d%d%d%d\n", ...)\<close>\<close>

definition isspace :: "char \<Rightarrow> bool" where
  "isspace c = (let n = (of_char c :: nat) in n = 32 \<or> (9 \<le> n \<and> n \<le> 13))"

definition isdigit :: "char \<Rightarrow> bool" where
  "isdigit c = (let n = (of_char c :: nat) in 48 \<le> n \<and> n \<le> 57)"

definition digits_val :: "string \<Rightarrow> int" where
  "digits_val ds = foldl (\<lambda>a c. 10 * a + (int (of_char c) - 48)) 0 ds"

text \<open>
  The value an \<^verbatim>\<open>int\<close> holds: 32 bits, two's complement, so arithmetic wraps around.
  \<^verbatim>\<open>%d\<close> converts the digits as \<^verbatim>\<open>strtol\<close> does, saturating at the range of \<^verbatim>\<open>long\<close>
  (64 bits), and stores the low 32 bits of the result.
\<close>

definition c_int :: "int \<Rightarrow> int" where
  "c_int x = (x + 2147483648) mod 4294967296 - 2147483648"

definition c_long_sat :: "int \<Rightarrow> int" where
  "c_long_sat x = max (- (2 ^ 63)) (min (2 ^ 63 - 1) x)"

text \<open>One \<^verbatim>\<open>%d\<close>: white space, an optional sign, at least one digit.\<close>

definition scan_d :: "string \<Rightarrow> (int \<times> string) option" where
  "scan_d s = (let s1 = dropWhile isspace s;
                   (neg, s2) = (case s1 of [] \<Rightarrow> (False, s1)
                                | c # r \<Rightarrow> if c = CHR ''-'' then (True, r)
                                           else if c = CHR ''+'' then (False, r) else (False, s1));
                   ds = takeWhile isdigit s2
               in if ds = [] then None
                  else Some (c_int (c_long_sat (if neg then - digits_val ds else digits_val ds)),
                             dropWhile isdigit s2))"

text \<open>The values \<^verbatim>\<open>sscanf\<close> converts for up to \<open>n\<close> directives \<^verbatim>\<open>%d\<close>; it stops at the
  first that fails.\<close>

fun scan_ds :: "nat \<Rightarrow> string \<Rightarrow> int list" where
  "scan_ds 0 s = []"
| "scan_ds (Suc n) s = (case scan_d s of None \<Rightarrow> [] | Some (v, r) \<Rightarrow> v # scan_ds n r)"

text \<open>The header lines, as \<^verbatim>\<open>otpw_prepare\<close> and \<^verbatim>\<open>otpw_verify\<close> both read them: the magic
  line, an optional comment line, and the line of the four numbers
  \<^verbatim>\<open>entries challen hlen pwlen\<close>. \<open>None\<close> when a line is missing or the magic is wrong;
  otherwise the values converted (the header is right when there are four) and the
  stream after the header.\<close>

definition read_header_vals :: "config \<Rightarrow> stream \<Rightarrow> (int list \<times> stream) option" where
  "read_header_vals cfg st =
     (case fgets 81 st of None \<Rightarrow> None | Some (l1, st1) \<Rightarrow>
        if cstr l1 \<noteq> otpw_magic cfg then None else
        (case fgets 81 st1 of None \<Rightarrow> None | Some (l2, st2) \<Rightarrow>
          (case (if cstr l2 \<noteq> [] \<and> hd l2 = CHR ''#'' then fgets 81 st2 else Some (l2, st2)) of
             None \<Rightarrow> None
           | Some (l3, st3) \<Rightarrow> Some (scan_ds 4 (cstr l3), st3))))"

definition read_header :: "config \<Rightarrow> stream \<Rightarrow> ((int \<times> int \<times> int \<times> int) \<times> stream) option" where
  "read_header cfg st =
     (case read_header_vals cfg st of
        Some ([ents, chl, hl, pwl], st') \<Rightarrow> Some ((ents, chl, hl, pwl), st')
      | _ \<Rightarrow> None)"

section \<open>The base-64 variant of the hash encoding\<close>

definition tab :: string where
  "tab = ''ABCDEFGHIJKLMNOPQRSTUVWXYZabcdefghijk%mnopqrstuvwxyz:=23456789+/''"

text \<open>Character \<open>i\<close> of \<^verbatim>\<open>conv_base64\<close>; \<open>None\<close> where the C code would read past the end
  of the digest \<open>v\<close>.\<close>

definition b64_char :: "byte list \<Rightarrow> nat \<Rightarrow> char option" where
  "b64_char v i = (let j = (i div 4) * 3 in
     if i mod 4 = 0 then
       (if j < length v then Some (tab ! unat (drop_bit 2 (v ! j))) else None)
     else if i mod 4 = 1 then
       (if j + 1 < length v
        then Some (tab ! unat ((push_bit 4 (v ! j) AND 0x30) OR drop_bit 4 (v ! (j + 1))))
        else None)
     else if i mod 4 = 2 then
       (if j + 2 < length v
        then Some (tab ! unat ((push_bit 2 (v ! (j + 1)) AND 0x3c) OR drop_bit 6 (v ! (j + 2))))
        else None)
     else
       (if j + 2 < length v then Some (tab ! unat (v ! (j + 2) AND 0x3f)) else None))"

definition conv_base64 :: "byte list \<Rightarrow> int \<Rightarrow> string option" where
  "conv_base64 v chars = those (map (b64_char v) [0 ..< nat chars])"

section \<open>\<^verbatim>\<open>otpw_verify\<close>: scanning the entered passwords\<close>

definition is_bs :: "char \<Rightarrow> bool" where
  "is_bs c = (c = CHR 0x08 \<or> c = CHR 0x7F)"

text \<open>The classification of one typed character: the character stored in the one-time
  password, or \<open>None\<close> for a character that is dropped.\<close>

definition otp_char :: "char \<Rightarrow> char option" where
  "otp_char c = (let n = (of_char c :: nat) in
     if c = CHR ''l'' \<or> c = CHR ''1'' \<or> c = CHR ''|'' then Some (CHR ''I'')
     else if c = CHR ''0'' then Some (CHR ''O'')
     else if c = CHR 0x5C then Some (CHR ''/'')
     else if (65 \<le> n \<and> n \<le> 90) \<or> (97 \<le> n \<and> n \<le> 122) \<or> (50 \<le> n \<and> n \<le> 57) \<or>
             c = CHR '':'' \<or> c = CHR ''%'' \<or> c = CHR ''='' \<or> c = CHR ''+'' \<or> c = CHR ''/''
          then Some c
     else None)"

text \<open>
  The scan walks the password from its last byte to its first. The model holds the
  bytes not yet read, \<^verbatim>\<open>password[l], password[l-1], ..., password[0]\<close>, as a list in
  this order: \<^verbatim>\<open>l >= 0\<close> is ``the list is not empty'' and \<^verbatim>\<open>l--\<close> drops its head.

  \<open>del_run\<close> is the inner loop that removes DEL/BS characters and the characters they
  delete.
\<close>

fun del_run :: "nat \<Rightarrow> string \<Rightarrow> string" where
  "del_run d [] = []"
| "del_run d (c # cs) =
     (if is_bs c then del_run (Suc d) cs
      else if 0 < d then del_run (d - 1) cs
      else c # cs)"

lemma length_del_run: "length (del_run d xs) \<le> length xs"
  by (induction xs arbitrary: d) (auto intro: le_SucI)

text \<open>The loop \<^verbatim>\<open>while (!otpw[i*ch->pwlen + j] && l >= 0)\<close>: the character stored in the
  slot (\<open>None\<close> when the slot is still zero at the end), and the bytes left.\<close>

function fill_slot :: "string \<Rightarrow> char option \<times> string" where
  "fill_slot [] = (None, [])"
| "fill_slot (c # cs) =
     (case del_run 0 (c # cs) of
        [] \<Rightarrow> (None, [])
      | x # xs \<Rightarrow> (case otp_char x of Some y \<Rightarrow> (Some y, xs) | None \<Rightarrow> fill_slot xs))"
  by pat_completeness auto
termination
proof (relation "measure length")
  fix c cs x xs
  assume "del_run 0 (c # cs) = x # xs"
  then have "length (x # xs) \<le> length (c # cs)"
    using length_del_run [of 0 "c # cs"] by simp
  then show "(xs, c # cs) \<in> measure length" by simp
qed simp

definition store :: "string \<Rightarrow> int \<Rightarrow> char option \<Rightarrow> string" where
  "store otpw k r = (case r of Some y \<Rightarrow> otpw[nat k := y] | None \<Rightarrow> otpw)"

text \<open>\<^verbatim>\<open>for (j = ...; j >= 0 && l >= 0; j--)\<close>, started at \<open>j\<close>.\<close>

function scan_j :: "int \<Rightarrow> int \<Rightarrow> int \<Rightarrow> string \<Rightarrow> string \<Rightarrow> int \<times> string \<times> string" where
  "scan_j pwl i j xs otpw =
     (if 0 \<le> j \<and> xs \<noteq> []
      then (case fill_slot xs of (r, xs') \<Rightarrow>
              scan_j pwl i (j - 1) xs' (store otpw (i * pwl + j) r))
      else (j, xs, otpw))"
  by pat_completeness auto
termination
  by (relation "measure (\<lambda>(pwl, i, j, xs, otpw). nat (j + 1))") auto

declare scan_j.simps [simp del]

text \<open>\<^verbatim>\<open>for (i = ...; i >= 0 && l >= 0; i--)\<close>, started at \<open>i\<close>; \<open>j\<close> is the value the
  variable \<^verbatim>\<open>j\<close> has when the loop is entered.\<close>

function scan_i :: "int \<Rightarrow> int \<Rightarrow> int \<Rightarrow> string \<Rightarrow> string \<Rightarrow> int \<times> int \<times> string \<times> string" where
  "scan_i pwl i j xs otpw =
     (if 0 \<le> i \<and> xs \<noteq> []
      then (case scan_j pwl i (pwl - 1) xs otpw of (j', xs', otpw') \<Rightarrow>
              scan_i pwl (i - 1) j' xs' otpw')
      else (i, j, xs, otpw))"
  by pat_completeness auto
termination
  by (relation "measure (\<lambda>(pwl, i, j, xs, otpw). nat (i + 1))") auto

declare scan_i.simps [simp del]

text \<open>The whole scan: \<open>None\<close> when the entered password was too short, otherwise the
  prefix password \<^verbatim>\<open>password[0..l-1]\<close> and the buffer \<^verbatim>\<open>otpw\<close>.\<close>

definition otpw_scan :: "int \<Rightarrow> int \<Rightarrow> string \<Rightarrow> (string \<times> string) option" where
  "otpw_scan npw pwl password =
     (case scan_i pwl (npw - 1) 0 (rev password) (replicate (nat (npw * pwl)) NUL) of
        (i, j, xs, otpw) \<Rightarrow> if 0 \<le> i \<or> 0 \<le> j then None else Some (rev xs, otpw))"

section \<open>\<^verbatim>\<open>otpw_verify\<close>\<close>

text \<open>
  The message digest (\<^verbatim>\<open>md_init\<close>, \<^verbatim>\<open>md_add\<close>, \<^verbatim>\<open>md_close\<close> of \<^verbatim>\<open>md.h\<close>) is not part of
  the sources at hand: it is the parameter \<open>md\<close>, the digest of the bytes added.

  The loop that compares all entered passwords: \<open>Some True\<close> when every hash matched,
  \<open>Some False\<close> at the first mismatch, \<open>None\<close> where the behaviour of the C code is
  undefined: \<^verbatim>\<open>conv_base64\<close> reads past the digest or writes past the 81 bytes of
  \<^verbatim>\<open>line\<close>, or \<^verbatim>\<open>ch->hash[i]\<close> is not a string that can be read.
\<close>

definition hash_at :: "challenge \<Rightarrow> int \<Rightarrow> string option" where
  "hash_at ch i = (case hash ch of
       Live arr \<Rightarrow> if 0 \<le> i \<and> nat i < length arr then arr ! nat i else None
     | _ \<Rightarrow> None)"

function compare_all :: "(string \<Rightarrow> byte list) \<Rightarrow> challenge \<Rightarrow> string \<Rightarrow> string \<Rightarrow> int \<Rightarrow> bool option" where
  "compare_all md ch prefix otpw i =
     (if i < passwords ch then
        (if 80 < hlen ch then None else
         case conv_base64 (md (prefix @ take (nat (pwlen ch)) (drop (nat (i * pwlen ch)) otpw)))
                (hlen ch) of
           None \<Rightarrow> None
         | Some line \<Rightarrow>
            (case hash_at ch i of
               None \<Rightarrow> None
             | Some h \<Rightarrow> if line \<noteq> cstr h then Some False
                         else compare_all md ch prefix otpw (i + 1)))
      else Some True)"
  by pat_completeness auto
termination
  by (relation "measure (\<lambda>(md, ch, prefix, otpw, i). nat (passwords ch - i))") auto

declare compare_all.simps [simp del]

text \<open>The walk over the \<open>ents\<close> password lines of the reopened file, from line \<open>i\<close> on,
  with the array \<^verbatim>\<open>ch->selection\<close> and the number \<^verbatim>\<open>ch->passwords\<close>: whether it reached
  the end, the stream, and the counter \<^verbatim>\<open>ch->remaining\<close>.\<close>

function overwrite :: "int list \<Rightarrow> int \<Rightarrow> int \<Rightarrow> int \<Rightarrow> int \<Rightarrow> stream \<Rightarrow> int \<Rightarrow> bool \<times> stream \<times> int" where
  "overwrite sel npw ents width i st rem =
     (if i < ents then
        (if i \<in> set (take (nat npw) sel)
         then overwrite sel npw ents width (i + 1)
                (fputc NL ((fputc (CHR ''-'') ^^ nat width) st)) (rem - 1)
         else (case fgets 81 st of
                 None \<Rightarrow> (False, st, rem)
               | Some (l, st') \<Rightarrow> overwrite sel npw ents width (i + 1) st' rem))
      else (True, st, rem))"
  by pat_completeness auto
termination
  by (relation "measure (\<lambda>(sel, npw, ents, width, i, st, rem). nat (ents - i))") auto

declare overwrite.simps [simp del]

text \<open>The array the walk reads \<^verbatim>\<open>ch->selection[j]\<close> from, for \<^verbatim>\<open>j < ch->passwords\<close>, when
  there is a line to walk over; \<open>None\<close> when these reads are undefined.\<close>

definition selection_read :: "challenge \<Rightarrow> int \<Rightarrow> int list option" where
  "selection_read ch ents =
     (if 0 < ents then
        (case selection ch of
           Live sel \<Rightarrow> if nat (passwords ch) \<le> length sel then Some sel else None
         | _ \<Rightarrow> None)
      else Some [])"

text \<open>The label \<^verbatim>\<open>cleanup\<close>: remove the lock, restore the identity (\<open>old\<close> is \<open>None\<close> while
  \<^verbatim>\<open>olduid\<close> and \<^verbatim>\<open>oldgid\<close> are still \<open>-1\<close>), clear \<^verbatim>\<open>ch->passwords\<close>, release the
  storage of the handle.\<close>

definition verify_cleanup :: "config \<Rightarrow> verdict \<Rightarrow> challenge \<Rightarrow> (nat \<times> nat) option \<Rightarrow> world \<Rightarrow> (verdict \<times> challenge \<times> world) option" where
  "verify_cleanup cfg result ch old w =
     (case (if locked ch
            then (case lockfilename ch of Live p \<Rightarrow> Some (unlink p w) | _ \<Rightarrow> None)
            else Some w) of
        None \<Rightarrow> None
      | Some w1 \<Rightarrow>
          (let w2 = (case old of None \<Rightarrow> w1
                     | Some (olduid, oldgid) \<Rightarrow> setegid oldgid (seteuid olduid w1))
           in case otpw_free cfg (ch\<lparr>passwords := 0\<rparr>) of
                None \<Rightarrow> None
              | Some ch' \<Rightarrow> Some (result, ch', w2)))"

text \<open>The label \<^verbatim>\<open>writefail\<close>.\<close>

definition verify_writefail :: "config \<Rightarrow> challenge \<Rightarrow> (nat \<times> nat) option \<Rightarrow> world \<Rightarrow> (verdict \<times> challenge \<times> world) option" where
  "verify_writefail cfg ch old w =
     verify_cleanup cfg OTPW_OK (if passwords ch = 1 then ch\<lparr>locked := False\<rparr> else ch) old w"

text \<open>What follows \<^verbatim>\<open>result = OTPW_OK\<close>: overwriting the used passwords in the file.\<close>

definition verify_consume :: "config \<Rightarrow> challenge \<Rightarrow> (nat \<times> nat) option \<Rightarrow> world \<Rightarrow> (verdict \<times> challenge \<times> world) option" where
  "verify_consume cfg ch old w =
     (case filename ch of
        Live path \<Rightarrow>
         (case files w path of
            None \<Rightarrow> verify_writefail cfg ch old w
          | Some content \<Rightarrow>
             (case read_header cfg ([], content) of
                None \<Rightarrow> verify_writefail cfg ch old w
              | Some ((ents, chl, hl, pwl), st) \<Rightarrow>
                  if ents \<noteq> entries ch \<or> pwl \<noteq> pwlen ch \<or> hl \<noteq> hlen ch \<or> chl \<noteq> challen ch \<or>
                     c_int ((chl + 1) * otpw_multi cfg) > int (challenge_size cfg)
                  then verify_writefail cfg ch old w
                  else (case selection_read ch ents of
                          None \<Rightarrow> None
                        | Some sel \<Rightarrow>
                           (case overwrite sel (passwords ch) ents (c_int (chl + hl)) 0 st
                                   (remaining ch) of
                              (ok, st', rem) \<Rightarrow>
                                (let w' = w\<lparr>files := (files w)(path \<mapsto> fclose st')\<rparr>;
                                     ch' = ch\<lparr>remaining := rem\<rparr>
                                 in if ok then verify_cleanup cfg OTPW_OK ch' old w'
                                    else verify_writefail cfg ch' old w')))))
      | _ \<Rightarrow> None)"

text \<open>
  \<^verbatim>\<open>otpw_verify\<close>, for a handle that is not the null pointer. \<open>calloc_ok\<close> says whether
  the allocation of the buffer \<^verbatim>\<open>otpw\<close> succeeds; a null \<^verbatim>\<open>password\<close> is \<open>None\<close>. The
  result is \<open>None\<close> where the behaviour of the C code is undefined (the index
  \<^verbatim>\<open>i*ch->pwlen + j\<close> overflows, storage is read out of bounds or after its release, or
  released twice).
\<close>

definition otpw_verify :: "config \<Rightarrow> (string \<Rightarrow> byte list) \<Rightarrow> bool \<Rightarrow> challenge \<Rightarrow> string option \<Rightarrow> world \<Rightarrow> (verdict \<times> challenge \<times> world) option" where
  "otpw_verify cfg md calloc_ok ch password w =
     (case password of
        None \<Rightarrow> verify_cleanup cfg OTPW_ERROR ch None w
      | Some pw \<Rightarrow>
          if passwords ch < 1 \<or> passwords ch > otpw_multi cfg
          then verify_cleanup cfg OTPW_ERROR ch None w
          else if \<not> calloc_ok \<or> pwlen ch < 0
          then verify_cleanup cfg OTPW_ERROR ch None w
          else if 2147483647 < passwords ch * pwlen ch then None
          else (let old = Some (euid w, egid w);
                    w1 = seteuid (uid ch) (setegid (gid ch) w)
                in case otpw_scan (passwords ch) (pwlen ch) (cstr pw) of
                     None \<Rightarrow> verify_cleanup cfg OTPW_WRONG ch old w1
                   | Some (prefix, otpw) \<Rightarrow>
                       (case compare_all md ch prefix otpw 0 of
                          None \<Rightarrow> None
                        | Some False \<Rightarrow> verify_cleanup cfg OTPW_WRONG ch old w1
                        | Some True \<Rightarrow> verify_consume cfg ch old w1)))"

section \<open>\<^verbatim>\<open>otpw_prepare\<close>\<close>

text \<open>
  What the system answers to the calls of \<^verbatim>\<open>otpw_prepare\<close>. Other processes can change
  the lock between two calls, so the answers are given call by call: whether the \<open>n\<close>-th
  allocation succeeds, the contents of the file \<^verbatim>\<open>fopen\<close> opens for reading (\<open>None\<close> when
  it fails), the result of the \<open>n\<close>-th iteration's \<^verbatim>\<open>symlink\<close> and \<^verbatim>\<open>lstat\<close> (with the age
  of the lock in seconds), the result of \<^verbatim>\<open>readlink\<close>, the bytes the array \<^verbatim>\<open>lock\<close> holds
  when nothing was stored in it, and the number \<^verbatim>\<open>*((unsigned int *) r)\<close> after the \<open>n\<close>-th
  call of \<^verbatim>\<open>rbg_iter\<close>. The identity switch only decides what the system answers and is
  not modelled here.
\<close>

datatype symlink_result = Symlink_ok | Symlink_eexist | Symlink_error

datatype lstat_result = Lstat_ok int | Lstat_enoent | Lstat_error

datatype readlink_result = Readlink_ok string | Readlink_enoent | Readlink_error

record sys =
  alloc_ok :: "nat \<Rightarrow> bool"
  file_r :: "string \<Rightarrow> string option"
  symlink_res :: "nat \<Rightarrow> symlink_result"
  lstat_res :: "nat \<Rightarrow> lstat_result"
  readlink_res :: readlink_result
  lock_garbage :: string
  rnd :: "nat \<Rightarrow> int"

text \<open>The changes the call makes to the lock, in their order.\<close>

datatype lock_op = Op_symlink string string | Op_unlink string

text \<open>\<^verbatim>\<open>struct passwd\<close>, the fields read.\<close>

record passwd =
  pw_name :: string
  pw_dir :: string
  pw_uid :: nat
  pw_gid :: nat

text \<open>A call returns a value, or its behaviour is undefined in C (a read or write out
  of bounds).\<close>

datatype 'a outcome = Undefined | Returns 'a

text \<open>Modelled from the spec: the flag bits are declared in \<^verbatim>\<open>otpw.h\<close>, which is not among
  the sources; the spec names a no-lock flag of the flags word. Its value plays no part
  in what is proved.\<close>

definition OTPW_NOLOCK :: int where
  "OTPW_NOLOCK = 2"

subsection \<open>Reading the password lines\<close>

text \<open>
  The loop over the \<open>ents\<close> password lines, from line \<open>i\<close> on: whether all lines were
  there with the right length, the buffer \<^verbatim>\<open>hbuf\<close> (filled line by line), the counter
  \<^verbatim>\<open>ch->remaining\<close> and the index \<open>j\<close> of the first unused line.
\<close>

function read_rows :: "int \<Rightarrow> int \<Rightarrow> int \<Rightarrow> stream \<Rightarrow> string \<Rightarrow> int \<Rightarrow> int \<Rightarrow> (bool \<times> string \<times> int \<times> int) outcome" where
  "read_rows ents hbuflen i st hbuf rem j =
     (if i < ents then
        (case fgets 81 st of
           None \<Rightarrow> Returns (False, hbuf, rem, j)
         | Some (line, st') \<Rightarrow>
             if int (length (cstr line)) \<noteq> c_int (hbuflen + 1) then Returns (False, hbuf, rem, j)
             else if hbuflen < 1 then Undefined
             else (let live = (hd line \<noteq> CHR ''-'')
                   in read_rows ents hbuflen (i + 1) st' (hbuf @ take (nat hbuflen) line)
                        (if live then rem + 1 else rem) (if live \<and> j < 0 then i else j)))
      else Returns (True, hbuf, rem, j))"
  by pat_completeness auto
termination
  by (relation "measure (\<lambda>(ents, hbuflen, i, st, hbuf, rem, j). nat (ents - i))") auto

declare read_rows.simps [simp del]

subsection \<open>Getting the lock\<close>

datatype lock_state = Locked | Fatal | Busy

text \<open>The \<^verbatim>\<open>do ... while (repeat && ++count < 5)\<close> loop, from the iteration \<open>count\<close> on:
  how it ends, and what it did to the lock.\<close>

function lock_loop :: "config \<Rightarrow> sys \<Rightarrow> string \<Rightarrow> string \<Rightarrow> nat \<Rightarrow> lock_state \<times> lock_op list" where
  "lock_loop cfg env label path count =
     (case symlink_res env count of
        Symlink_ok \<Rightarrow> (Locked, [Op_symlink label path])
      | Symlink_error \<Rightarrow> (Fatal, [])
      | Symlink_eexist \<Rightarrow>
          (case lstat_res env count of
             Lstat_ok age \<Rightarrow>
               if 0 < otpw_locktimeout cfg \<and> otpw_locktimeout cfg < age
               then (if count + 1 < 5
                     then (case lock_loop cfg env label path (count + 1) of
                             (r, ops) \<Rightarrow> (r, Op_unlink path # ops))
                     else (Busy, [Op_unlink path]))
               else (Busy, [])
           | Lstat_enoent \<Rightarrow>
               if count + 1 < 5 then lock_loop cfg env label path (count + 1) else (Busy, [])
           | Lstat_error \<Rightarrow> (Fatal, [])))"
  by pat_completeness auto
termination
  by (relation "measure (\<lambda>(cfg, env, label, path, count). 5 - count)") auto

declare lock_loop.simps [simp del]

subsection \<open>The multi-challenge\<close>

text \<open>
  \<^verbatim>\<open>strncmp(s1, s2, n) == 0\<close>, where \<open>s1\<close> is the rest of a buffer without terminating
  zero byte and \<open>s2\<close> is a C string; \<open>None\<close> when the comparison reads past the end of the
  buffer.
\<close>

fun strncmp_eq :: "string \<Rightarrow> string \<Rightarrow> nat \<Rightarrow> bool option" where
  "strncmp_eq s1 s2 0 = Some True"
| "strncmp_eq [] s2 (Suc n) = None"
| "strncmp_eq (a # s1) [] (Suc n) = Some (a = NUL)"
| "strncmp_eq (a # s1) (b # s2) (Suc n) =
     (if a \<noteq> b then Some False else if a = NUL then Some True else strncmp_eq s1 s2 n)"

text \<open>The test that rejects the entry \<open>j\<close>:
  \<^verbatim>\<open>hbuf[j*hbuflen] == '-' || !strncmp(hbuf + j*hbuflen + ch->challen, lock, ch->challen)\<close>.\<close>

definition rejected :: "string \<Rightarrow> int \<Rightarrow> int \<Rightarrow> string \<Rightarrow> int \<Rightarrow> bool option" where
  "rejected hbuf hbuflen chl lock j =
     (if 0 \<le> j * hbuflen \<and> nat (j * hbuflen) < length hbuf
      then (if hbuf ! nat (j * hbuflen) = CHR ''-'' then Some True
            else strncmp_eq (drop (nat (j * hbuflen + chl)) hbuf) lock (nat chl))
      else None)"

text \<open>The random scan \<^verbatim>\<open>do ... while (... && count++ < 2 * ch->entries)\<close>: the entry it
  ends with, and the number of calls of \<^verbatim>\<open>rbg_iter\<close> so far.\<close>

function rand_pick :: "sys \<Rightarrow> string \<Rightarrow> int \<Rightarrow> int \<Rightarrow> int \<Rightarrow> string \<Rightarrow> int \<Rightarrow> nat \<Rightarrow> (int \<times> nat) outcome" where
  "rand_pick env hbuf ents hbuflen chl lock count k =
     (let j = (rnd env k mod 4294967296) mod ents in
      case rejected hbuf hbuflen chl lock j of
        None \<Rightarrow> Undefined
      | Some r \<Rightarrow>
          if r \<and> count < 2 * ents
          then rand_pick env hbuf ents hbuflen chl lock (count + 1) (Suc k)
          else Returns (j, Suc k))"
  by pat_completeness auto
termination
  by (relation "measure (\<lambda>(env, hbuf, ents, hbuflen, chl, lock, count, k). nat (2 * ents - count))")
     auto

declare rand_pick.simps [simp del]

text \<open>The fallback scan \<^verbatim>\<open>while (...) j = (j + 1) % ch->entries\<close>. It has no bound: the
  result is \<open>None\<close> when it runs forever.\<close>

partial_function (option) fallback_scan :: "string \<Rightarrow> int \<Rightarrow> int \<Rightarrow> int \<Rightarrow> string \<Rightarrow> int \<Rightarrow> int outcome option" where
  "fallback_scan hbuf ents hbuflen chl lock j =
     (case rejected hbuf hbuflen chl lock j of
        None \<Rightarrow> Some Undefined
      | Some r \<Rightarrow>
          if r then fallback_scan hbuf ents hbuflen chl lock ((j + 1) mod ents)
          else Some (Returns j))"

declare fallback_scan.simps [code]

text \<open>What the handle's two arrays hold, for the writes \<^verbatim>\<open>ch->hash[k]\<close> and
  \<^verbatim>\<open>ch->selection[k]\<close>.\<close>

definition sel_arr :: "challenge \<Rightarrow> int list" where
  "sel_arr ch = (case selection ch of Live a \<Rightarrow> a | _ \<Rightarrow> [])"

definition hash_arr :: "challenge \<Rightarrow> string option list" where
  "hash_arr ch = (case hash ch of Live a \<Rightarrow> a | _ \<Rightarrow> [])"

text \<open>
  The loop that generates the \<^verbatim>\<open>otpw_multi\<close> challenges, with the table \<^verbatim>\<open>hbuf\<close> and the
  number \<open>k\<close> of calls of \<^verbatim>\<open>rbg_iter\<close> so far. The bound on the length of the challenge
  is computed in \<^verbatim>\<open>size_t\<close> (64 bits, unsigned). \<open>None\<close> when the loop runs forever.
\<close>

partial_function (option) multi_loop :: "config \<Rightarrow> sys \<Rightarrow> string \<Rightarrow> int \<Rightarrow> int \<Rightarrow> string \<times> challenge \<times> nat \<Rightarrow> challenge outcome option" where
  "multi_loop cfg env lock ents hbuflen st =
     (case st of (hbuf, ch, k) \<Rightarrow>
        if passwords ch < otpw_multi cfg \<and>
           int (length (challenge ch)) < (int (challenge_size cfg) - challen ch - 2) mod 2 ^ 64
        then
          (case rand_pick env hbuf ents hbuflen (challen ch) lock 0 k of
             Undefined \<Rightarrow> Some Undefined
           | Returns (j0, k') \<Rightarrow>
              (case fallback_scan hbuf ents hbuflen (challen ch) lock j0 of
                 None \<Rightarrow> None
               | Some Undefined \<Rightarrow> Some Undefined
               | Some (Returns j) \<Rightarrow>
                  (let n = nat (passwords ch);
                       ch1 = ch\<lparr>challenge := challenge ch @ (if passwords ch \<noteq> 0 then ''/'' else [])
                                   @ cstr (take (nat (challen ch)) (drop (nat (j * hbuflen)) hbuf))\<rparr>
                   in if \<not> (n < length (hash_arr ch) \<and> n < length (sel_arr ch))
                      then Some Undefined
                      else if hash_arr ch ! n = None \<and> \<not> alloc_ok env (5 + n)
                      then Some (Returns ch1)
                      else multi_loop cfg env lock ents hbuflen
                             (hbuf[nat (j * hbuflen) := CHR ''-''],
                              ch1\<lparr>hash := Live ((hash_arr ch)[n :=
                                      Some (cstr (take (nat (hlen ch))
                                                   (drop (nat (j * hbuflen + challen ch)) hbuf)))]),
                                   selection := Live ((sel_arr ch)[n := j]),
                                   passwords := passwords ch + 1\<rparr>,
                              k'))))
        else Some (Returns ch))"

declare multi_loop.simps [code]

subsection \<open>The function\<close>

text \<open>The label \<^verbatim>\<open>cleanup\<close>: the storage of the handle is released when the challenge is
  empty.\<close>

definition prepare_cleanup :: "config \<Rightarrow> challenge \<Rightarrow> lock_op list \<Rightarrow> (challenge \<times> lock_op list) outcome" where
  "prepare_cleanup cfg ch ops =
     (if challenge ch = []
      then (case otpw_free cfg ch of None \<Rightarrow> Undefined | Some ch' \<Rightarrow> Returns (ch', ops))
      else Returns (ch, ops))"

text \<open>The contents of the array \<^verbatim>\<open>lock\<close> after \<^verbatim>\<open>readlink\<close>, with the lock operations so
  far; \<open>None\<close> when \<^verbatim>\<open>otpw_prepare\<close> gives up there. \<^verbatim>\<open>readlink\<close> stores at most 80 bytes.
  A symbolic link has no empty target, so \<^verbatim>\<open>readlink\<close> does not return 0; the model
  treats an empty target as a failure of \<^verbatim>\<open>readlink\<close>.\<close>

definition read_lock :: "sys \<Rightarrow> challenge \<Rightarrow> string \<Rightarrow> lock_op list \<Rightarrow> (string \<times> lock_op list) option" where
  "read_lock env ch path ops =
     (case readlink_res env of
        Readlink_ok t \<Rightarrow>
          if t = [] then None
          else (let lock = cstr (take 80 t)
                in if int (length lock) \<noteq> challen ch then Some (lock, ops @ [Op_unlink path])
                   else Some (lock, ops))
      | Readlink_enoent \<Rightarrow> Some (cstr (lock_garbage env), ops)
      | Readlink_error \<Rightarrow> None)"

text \<open>The multi-challenge itself, once the array \<^verbatim>\<open>lock\<close> is filled: the test on the
  number of remaining passwords (undefined when \<^verbatim>\<open>otpw_multi+1\<close> overflows), and the
  loop.\<close>

definition multi_stage :: "config \<Rightarrow> sys \<Rightarrow> challenge \<Rightarrow> string \<Rightarrow> int \<Rightarrow> string \<Rightarrow> lock_op list \<Rightarrow> (challenge \<times> lock_op list) outcome option" where
  "multi_stage cfg env ch lock hbuflen hbuf ops =
     (if 2147483647 < otpw_multi cfg + 1 then Some Undefined
      else if remaining ch < otpw_multi cfg + 1 \<or> remaining ch < 10
      then Some (prepare_cleanup cfg ch ops)
      else (case multi_loop cfg env lock (entries ch) hbuflen (hbuf, ch, 0) of
              None \<Rightarrow> None
            | Some Undefined \<Rightarrow> Some Undefined
            | Some (Returns ch2) \<Rightarrow> Some (prepare_cleanup cfg ch2 ops)))"

text \<open>What follows the loop that tries to get the lock, when it ended without the lock
  and without a fatal error.\<close>

definition prepare_multi :: "config \<Rightarrow> sys \<Rightarrow> challenge \<Rightarrow> string \<Rightarrow> int \<Rightarrow> string \<Rightarrow> lock_op list \<Rightarrow> (challenge \<times> lock_op list) outcome option" where
  "prepare_multi cfg env ch path hbuflen hbuf ops =
     (let ch1 = ch\<lparr>challenge := []\<rparr> in
      case read_lock env ch1 path ops of
        None \<Rightarrow> Some (prepare_cleanup cfg ch1 ops)
      | Some (lock, ops') \<Rightarrow> multi_stage cfg env ch1 lock hbuflen hbuf ops')"

text \<open>From the primary selection on: \<open>j\<close> is the first unused entry of the table
  \<^verbatim>\<open>hbuf\<close>.\<close>

definition prepare_select :: "config \<Rightarrow> sys \<Rightarrow> challenge \<Rightarrow> string \<Rightarrow> int \<Rightarrow> string \<Rightarrow> int \<Rightarrow> (challenge \<times> lock_op list) outcome option" where
  "prepare_select cfg env ch path hbuflen hbuf j =
     (if \<not> (0 \<le> challen ch \<and> nat (challen ch) < challenge_size cfg) \<or> sel_arr ch = [] \<or>
         hash_arr ch = []
      then Some Undefined
      else
       (let label = cstr (take (nat (challen ch)) (drop (nat (j * hbuflen)) hbuf));
            ch1 = ch\<lparr>challenge := label, selection := Live ((sel_arr ch)[0 := j])\<rparr>
        in if \<not> (alloc_ok env 5 \<and> 0 \<le> hlen ch + 1)
           then Some (prepare_cleanup cfg ch1 [])
           else if hlen ch < 0 then Some Undefined
           else
            (let ch2 = ch1\<lparr>hash := Live ((hash_arr ch)[0 :=
                              Some (cstr (take (nat (hlen ch))
                                           (drop (nat (j * hbuflen + challen ch)) hbuf)))])\<rparr>
             in if and (flags ch2) OTPW_NOLOCK \<noteq> 0
                then Some (prepare_cleanup cfg (ch2\<lparr>passwords := 1\<rparr>) [])
                else (case lock_loop cfg env label path 0 of
                        (Locked, ops) \<Rightarrow>
                          Some (prepare_cleanup cfg (ch2\<lparr>passwords := 1, locked := True\<rparr>) ops)
                      | (Fatal, ops) \<Rightarrow> Some (prepare_cleanup cfg (ch2\<lparr>challenge := []\<rparr>) ops)
                      | (Busy, ops) \<Rightarrow> prepare_multi cfg env ch2 path hbuflen hbuf ops))))"

text \<open>From the opened file on: the header, its range check, the table.\<close>

definition store_header :: "challenge \<Rightarrow> int list \<Rightarrow> challenge" where
  "store_header ch vals =
     (let c1 = (if 0 < length vals then ch\<lparr>entries := vals ! 0\<rparr> else ch);
          c2 = (if 1 < length vals then c1\<lparr>challen := vals ! 1\<rparr> else c1);
          c3 = (if 2 < length vals then c2\<lparr>hlen := vals ! 2\<rparr> else c2)
      in if 3 < length vals then c3\<lparr>pwlen := vals ! 3\<rparr> else c3)"

definition prepare_table :: "config \<Rightarrow> sys \<Rightarrow> challenge \<Rightarrow> string \<Rightarrow> string \<Rightarrow> (challenge \<times> lock_op list) outcome option" where
  "prepare_table cfg env ch path content =
     (case read_header_vals cfg ([], content) of
        None \<Rightarrow> Some (prepare_cleanup cfg ch [])
      | Some (vals, st) \<Rightarrow>
         (let ch1 = store_header ch vals in
          if length vals \<noteq> 4 then Some (prepare_cleanup cfg ch1 [])
          else if entries ch1 < 1 \<or> entries ch1 > 9999 \<or> challen ch1 < 1 \<or>
                  c_int ((challen ch1 + 1) * otpw_multi cfg) > int (challenge_size cfg) \<or>
                  pwlen ch1 < 4 \<or> pwlen ch1 > 999 \<or> hlen ch1 \<noteq> otpw_hlen cfg
          then Some (prepare_cleanup cfg ch1 [])
          else
           (let hbuflen = c_int (challen ch1 + hlen ch1) in
            if \<not> (alloc_ok env 4 \<and> 0 \<le> c_int (entries ch1 * hbuflen))
            then Some (prepare_cleanup cfg ch1 [])
            else (case read_rows (entries ch1) hbuflen 0 st [] 0 (- 1) of
                    Undefined \<Rightarrow> Some Undefined
                  | Returns (ok, hbuf, rem, j) \<Rightarrow>
                     (let ch2 = ch1\<lparr>remaining := rem\<rparr> in
                      if \<not> ok then Some (prepare_cleanup cfg ch2 [])
                      else if rem < 1 then Some (prepare_cleanup cfg ch2 [])
                      else prepare_select cfg env ch2 path hbuflen hbuf j)))))"

text \<open>
  \<^verbatim>\<open>otpw_prepare\<close>, for a handle that is not the null pointer: \<open>ch0\<close> is what the handle
  holds at entry, \<open>user\<close> is \<open>None\<close> for the null pointer. The result is the handle and the
  lock operations made; \<open>Some Undefined\<close> where the behaviour of the C code is undefined,
  \<open>None\<close> when the call does not return.
\<close>

definition otpw_prepare :: "config \<Rightarrow> sys \<Rightarrow> challenge \<Rightarrow> passwd option \<Rightarrow> int \<Rightarrow> (challenge \<times> lock_op list) outcome option" where
  "otpw_prepare cfg env ch0 user flgs =
     (let ch1 = ch0\<lparr>passwords := 0, remaining := - 1, entries := - 1, pwlen := 0, locked := False,
                    challenge := [], flags := flgs, filename := Null, lockfilename := Null,
                    selection := (if alloc_ok env 0 \<and> 0 \<le> otpw_multi cfg
                                  then Live (replicate (nat (otpw_multi cfg)) 0) else Null),
                    hash := (if alloc_ok env 1 \<and> 0 \<le> otpw_multi cfg
                             then Live (replicate (nat (otpw_multi cfg)) None) else Null)\<rparr>
      in if selection ch1 = Null \<or> hash ch1 = Null then Some (prepare_cleanup cfg ch1 [])
         else (case user of
                 None \<Rightarrow> Some (prepare_cleanup cfg ch1 [])
               | Some u \<Rightarrow>
                  (let (path, id_u, id_g) =
                         (case otpw_pseudouser cfg of
                            Some (pdir, puid, pgid) \<Rightarrow> (pdir @ ''/'' @ pw_name u, puid, pgid)
                          | None \<Rightarrow> (pw_dir u @ ''/'' @ otpw_file cfg, pw_uid u, pw_gid u))
                   in if \<not> alloc_ok env 2 then Some (prepare_cleanup cfg ch1 [])
                      else
                       (let ch2 = ch1\<lparr>filename := Live path, uid := id_u, gid := id_g\<rparr> in
                        if \<not> alloc_ok env 3 then Some (prepare_cleanup cfg ch2 [])
                        else
                         (let lockpath = path @ otpw_locksuffix cfg;
                              ch3 = ch2\<lparr>lockfilename := Live lockpath\<rparr>
                          in case file_r env path of
                               None \<Rightarrow> Some (prepare_cleanup cfg ch3 [])
                             | Some content \<Rightarrow> prepare_table cfg env ch3 lockpath content)))))"

section \<open>Conditions on a call of \<^verbatim>\<open>otpw_verify\<close>\<close>

text \<open>The condition under which the overwriting of the used passwords is given up before
  any line is written: the file cannot be reopened, or its header is not the one the
  handle was prepared from.\<close>

definition reopen_fails :: "config \<Rightarrow> challenge \<Rightarrow> world \<Rightarrow> bool" where
  "reopen_fails cfg ch w =
     (case filename ch of
        Live path \<Rightarrow>
         (case files w path of
            None \<Rightarrow> True
          | Some content \<Rightarrow>
             (case read_header cfg ([], content) of
                None \<Rightarrow> True
              | Some ((ents, chl, hl, pwl), st) \<Rightarrow>
                  ents \<noteq> entries ch \<or> pwl \<noteq> pwlen ch \<or> hl \<noteq> hlen ch \<or> chl \<noteq> challen ch \<or>
                  c_int ((chl + 1) * otpw_multi cfg) > int (challenge_size cfg)))
      | _ \<Rightarrow> False)"

text \<open>The storage of the handle is allocated, as \<^verbatim>\<open>otpw_prepare\<close> leaves it when it returns
  a challenge: the two arrays (with \<^verbatim>\<open>otpw_multi\<close> slots) and the two file names.\<close>

definition handle_allocated :: "config \<Rightarrow> challenge \<Rightarrow> bool" where
  "handle_allocated cfg ch =
     ((case selection ch of Live sel \<Rightarrow> True | _ \<Rightarrow> False) \<and>
      (case hash ch of Live arr \<Rightarrow> nat (otpw_multi cfg) \<le> length arr | _ \<Rightarrow> False) \<and>
      (case filename ch of Live p \<Rightarrow> True | _ \<Rightarrow> False) \<and>
      (case lockfilename ch of Live p \<Rightarrow> True | _ \<Rightarrow> False))"

section \<open>A concrete scenario\<close>

text \<open>
  A stand-in for the message digest, used only to evaluate the functions on concrete
  inputs: the first 20 bytes added, padded with zero bytes. The file has two password
  lines; the hash of the first is that of the prefix password \<open>foo\<close> and the one-time
  password \<open>abcd\<close>. The handle is the one \<^verbatim>\<open>otpw_prepare\<close> returns for this file when it
  gets the lock.
\<close>

definition md_demo :: "string \<Rightarrow> byte list" where
  "md_demo s = map of_char (take 20 (s @ replicate 20 NUL))"

definition demo_file :: string where
  "demo_file = ''OTPW1'' @ [NL] @ ''2 3 12 4'' @ [NL] @
               ''ABCZm9vYWJjZAAA'' @ [NL] @ ''DEFabcdefghijkl'' @ [NL]"

definition demo_handle :: challenge where
  "demo_handle = \<lparr> challenge = ''ABC'', passwords = 1, locked = True, entries = 2, pwlen = 4,
     challen = 3, hlen = 12, remaining = 2, uid = 1000, gid = 100,
     selection = Live [0, 0, 0], hash = Live [Some ''Zm9vYWJjZAAA'', None, None], flags = 0,
     filename = Live ''/home/u/.otpw'', lockfilename = Live ''/home/u/.otpw.lock'' \<rparr>"

definition demo_world :: world where
  "demo_world = \<lparr> files = [''/home/u/.otpw'' \<mapsto> demo_file],
     links = [''/home/u/.otpw.lock'' \<mapsto> ''ABC''],
     ruid = 0, euid = 0, suid = 0, rgid = 0, egid = 0, sgid = 0 \<rparr>"

definition demo_file_after :: string where
  "demo_file_after = ''OTPW1'' @ [NL] @ ''2 3 12 4'' @ [NL] @
               ''---------------'' @ [NL] @ ''DEFabcdefghijkl'' @ [NL]"

definition demo_stream :: stream where
  "demo_stream = (''OTPW1'' @ [NL] @ ''2 3 12 4'' @ [NL],
                  ''ABCZm9vYWJjZAAA'' @ [NL] @ ''DEFabcdefghijkl'' @ [NL])"

definition demo_handle_done :: challenge where
  "demo_handle_done = demo_handle\<lparr>passwords := 0, remaining := 1, selection := Freed,
     hash := Freed, filename := Freed, lockfilename := Freed\<rparr>"

definition demo_world_done :: world where
  "demo_world_done = demo_world\<lparr>files := [''/home/u/.otpw'' \<mapsto> demo_file_after],
     links := Map.empty\<rparr>"

definition demo_world_nofile :: world where
  "demo_world_nofile = demo_world\<lparr>files := Map.empty\<rparr>"

text \<open>A process whose effective uid 0 is neither its real nor its saved uid.\<close>

definition demo_world_setuid :: world where
  "demo_world_setuid = \<lparr> files = Map.empty, links = [''/home/u/.otpw.lock'' \<mapsto> ''ABC''],
     ruid = 1000, euid = 0, suid = 1000, rgid = 0, egid = 0, sgid = 0 \<rparr>"

definition demo_handle_failed :: challenge where
  "demo_handle_failed = demo_handle\<lparr>passwords := 0, locked := False, selection := Freed,
     hash := Freed, filename := Freed, lockfilename := Freed\<rparr>"

section \<open>Concrete scenarios for \<^verbatim>\<open>otpw_prepare\<close>\<close>

text \<open>
  A file with ten unused password lines, and a system in which every allocation succeeds
  and another session holds a lock that is one minute old; the target of the lock and
  the random numbers are parameters. \<open>demo_multi\<close> is the handle of a multi-challenge on
  this file, \<open>demo_failed\<close> the handle of a call that failed after it had read the
  header.
\<close>

definition demo_file10 :: string where
  "demo_file10 = ''OTPW1'' @ [NL] @ ''10 3 12 4'' @ [NL] @
     ''ABCaaaaaaaaaaaa'' @ [NL] @ ''DEFbbbbbbbbbbbb'' @ [NL] @ ''GHIcccccccccccc'' @ [NL] @
     ''JKLdddddddddddd'' @ [NL] @ ''MNOeeeeeeeeeeee'' @ [NL] @ ''PQRffffffffffff'' @ [NL] @
     ''STUgggggggggggg'' @ [NL] @ ''VWXhhhhhhhhhhhh'' @ [NL] @ ''YZaiiiiiiiiiiii'' @ [NL] @
     ''bcdjjjjjjjjjjjj'' @ [NL]"

definition demo_env :: "string \<Rightarrow> readlink_result \<Rightarrow> (nat \<Rightarrow> int) \<Rightarrow> sys" where
  "demo_env content rl r = \<lparr> alloc_ok = (\<lambda>n. True),
     file_r = (\<lambda>p. if p = ''/home/u/.otpw'' then Some content else None),
     symlink_res = (\<lambda>n. Symlink_eexist), lstat_res = (\<lambda>n. Lstat_ok 60),
     readlink_res = rl, lock_garbage = [], rnd = r \<rparr>"

definition demo_user :: passwd where
  "demo_user = \<lparr> pw_name = ''u'', pw_dir = ''/home/u'', pw_uid = 1000, pw_gid = 100 \<rparr>"

definition demo_handle0 :: challenge where
  "demo_handle0 = \<lparr> challenge = [], passwords = 0, locked = False, entries = 0, pwlen = 0,
     challen = 0, hlen = 0, remaining = 0, uid = 0, gid = 0,
     selection = Null, hash = Null, flags = 0, filename = Null, lockfilename = Null \<rparr>"

definition demo_multi :: "string \<Rightarrow> int list \<Rightarrow> string option list \<Rightarrow> challenge" where
  "demo_multi c sel hs = \<lparr> challenge = c, passwords = 3, locked = False, entries = 10,
     pwlen = 4, challen = 3, hlen = 12, remaining = 10, uid = 1000, gid = 100,
     selection = Live sel, hash = Live hs, flags = 0,
     filename = Live ''/home/u/.otpw'', lockfilename = Live ''/home/u/.otpw.lock'' \<rparr>"

definition demo_failed :: "int \<Rightarrow> int \<Rightarrow> challenge" where
  "demo_failed ents rem = \<lparr> challenge = [], passwords = 0, locked = False, entries = ents,
     pwlen = 4, challen = 3, hlen = 12, remaining = rem, uid = 1000, gid = 100,
     selection = Freed, hash = Freed, flags = 0, filename = Freed, lockfilename = Freed \<rparr>"

text \<open>The table \<^verbatim>\<open>hbuf\<close> as \<^verbatim>\<open>otpw_prepare\<close> has it after the header and the lines were
  read: \<open>ents\<close> rows of \<open>hbuflen = challen + hlen\<close> bytes.  The labels are no longer than
  the hashes, so that the \<open>challen\<close> bytes compared with the lock lie inside the row.\<close>

definition table_ok :: "int \<Rightarrow> int \<Rightarrow> int \<Rightarrow> int \<Rightarrow> string \<Rightarrow> bool" where
  "table_ok ents hbuflen chl hl hbuf \<longleftrightarrow>
     1 \<le> ents \<and> 1 \<le> chl \<and> chl \<le> hl \<and> hbuflen = chl + hl \<and>
     length hbuf = nat (ents * hbuflen)"

text \<open>The number of rows that the selection loops accept: not used up, and the compared
  bytes differ from the target of the lock.\<close>

definition acceptable_count :: "string \<Rightarrow> int \<Rightarrow> int \<Rightarrow> int \<Rightarrow> string \<Rightarrow> nat" where
  "acceptable_count hbuf ents hbuflen chl lock =
     length (filter (\<lambda>j. rejected hbuf hbuflen chl lock j = Some False) [0 .. ents - 1])"

text \<open>A file of ten unused entries that passes the header and line checks: every label
  is \<^verbatim>\<open>B\<close> and every hash begins with \<^verbatim>\<open>B\<close>.\<close>

definition demo_same_file :: string where
  "demo_same_file = ''OTPW1'' @ [NL] @ ''10 1 12 4'' @ [NL] @
     ''BBaaaaaaaaaaa'' @ [NL] @ ''BBbbbbbbbbbbb'' @ [NL] @ ''BBccccccccccc'' @ [NL] @
     ''BBddddddddddd'' @ [NL] @ ''BBeeeeeeeeeee'' @ [NL] @ ''BBfffffffffff'' @ [NL] @
     ''BBggggggggggg'' @ [NL] @ ''BBhhhhhhhhhhh'' @ [NL] @ ''BBiiiiiiiiiii'' @ [NL] @
     ''BBjjjjjjjjjjj'' @ [NL]"

definition demo_same_stream :: stream where
  "demo_same_stream = (''OTPW1'' @ [NL] @ ''10 1 12 4'' @ [NL],
     ''BBaaaaaaaaaaa'' @ [NL] @ ''BBbbbbbbbbbbb'' @ [NL] @ ''BBccccccccccc'' @ [NL] @
     ''BBddddddddddd'' @ [NL] @ ''BBeeeeeeeeeee'' @ [NL] @ ''BBfffffffffff'' @ [NL] @
     ''BBggggggggggg'' @ [NL] @ ''BBhhhhhhhhhhh'' @ [NL] @ ''BBiiiiiiiiiii'' @ [NL] @
     ''BBjjjjjjjjjjj'' @ [NL])"

definition demo_same_hbuf :: string where
  "demo_same_hbuf = ''BBaaaaaaaaaaa'' @ ''BBbbbbbbbbbbb'' @ ''BBccccccccccc'' @
     ''BBddddddddddd'' @ ''BBeeeeeeeeeee'' @ ''BBfffffffffff'' @
     ''BBggggggggggg'' @ ''BBhhhhhhhhhhh'' @ ''BBiiiiiiiiiii'' @ ''BBjjjjjjjjjjj''"

definition demo_same_handle :: challenge where
  "demo_same_handle = \<lparr> challenge = [], passwords = 0, locked = False, entries = 10, pwlen = 4,
     challen = 1, hlen = 12, remaining = 10, uid = 1000, gid = 100,
     selection = Live [0, 0, 0], hash = Live [None, None, None], flags = 0,
     filename = Live ''/home/u/.otpw'', lockfilename = Live ''/home/u/.otpw.lock'' \<rparr>"

section \<open>Properties of \<^verbatim>\<open>otpw_verify\<close>\<close>

lemma c_int_id: "- 2147483648 \<le> x \<Longrightarrow> x < 2147483648 \<Longrightarrow> c_int x = x"
  by (simp add: c_int_def)

lemma files_seteuid [simp]: "files (seteuid u w) = files w"
  by (simp add: seteuid_def)
lemma files_setegid [simp]: "files (setegid g w) = files w"
  by (simp add: setegid_def)
lemma files_unlink [simp]: "files (unlink p w) = files w"
  by (simp add: unlink_def)
lemma links_seteuid [simp]: "links (seteuid u w) = links w"
  by (simp add: seteuid_def)
lemma links_setegid [simp]: "links (setegid g w) = links w"
  by (simp add: setegid_def)

lemma otpw_free_fields:
  assumes "otpw_free cfg ch = Some ch'"
  shows "passwords ch' = passwords ch" and "remaining ch' = remaining ch"
    and "locked ch' = locked ch"
  using assms by (auto simp: otpw_free_def split: option.splits)

lemma cleanup_result:
  assumes "verify_cleanup cfg r ch old w = Some (r', ch', w')"
  shows "r' = r" and "passwords ch' = 0" and "files w' = files w"
    and "remaining ch' = remaining ch"
proof -
  from assms obtain w1 c1 where
    w1: "(if locked ch then (case lockfilename ch of Live p \<Rightarrow> Some (unlink p w) | _ \<Rightarrow> None)
          else Some w) = Some w1"
    and fr: "otpw_free cfg (ch\<lparr>passwords := 0\<rparr>) = Some c1"
    and res: "(r', ch', w') = (r, c1, (case old of None \<Rightarrow> w1
                     | Some (olduid, oldgid) \<Rightarrow> setegid oldgid (seteuid olduid w1)))"
    by (auto simp: verify_cleanup_def Let_def split: option.splits)
  from w1 have f: "files w1 = files w"
    by (auto split: if_splits ptr.splits)
  from res show "r' = r" by simp
  from res otpw_free_fields [OF fr] show "passwords ch' = 0" by simp
  from res otpw_free_fields [OF fr] show "remaining ch' = remaining ch" by simp
  from res f show "files w' = files w" by (auto split: option.splits)
qed

lemma writefail_result:
  assumes "verify_writefail cfg ch old w = Some (r', ch', w')"
  shows "r' = OTPW_OK" and "passwords ch' = 0" and "files w' = files w"
    and "remaining ch' = remaining ch"
  using assms cleanup_result [of cfg OTPW_OK _ old w r' ch' w']
  by (auto simp: verify_writefail_def split: if_splits)

lemma consume_result:
  assumes "verify_consume cfg ch old w = Some (r', ch', w')"
  shows "r' = OTPW_OK" and "passwords ch' = 0"
proof -
  from assms have "r' = OTPW_OK \<and> passwords ch' = 0"
    unfolding verify_consume_def Let_def
    by (auto split: ptr.splits option.splits prod.splits if_splits
             dest: writefail_result(1,2) cleanup_result(1,2))
  then show "r' = OTPW_OK" and "passwords ch' = 0" by simp_all
qed

text \<open>The three ways in which \<^verbatim>\<open>otpw_verify\<close> returns.\<close>

lemma verify_cases:
  assumes "otpw_verify cfg md ok ch pw w = Some res"
  shows "verify_cleanup cfg OTPW_ERROR ch None w = Some res \<or>
         verify_cleanup cfg OTPW_WRONG ch (Some (euid w, egid w))
                 (seteuid (uid ch) (setegid (gid ch) w)) = Some res \<or>
         verify_consume cfg ch (Some (euid w, egid w))
                 (seteuid (uid ch) (setegid (gid ch) w)) = Some res"
proof (cases pw)
  case None
  with assms show ?thesis by (simp add: otpw_verify_def)
next
  case (Some p)
  show ?thesis
  proof (cases "passwords ch < 1 \<or> passwords ch > otpw_multi cfg \<or> \<not> ok \<or> pwlen ch < 0")
    case True
    then have "otpw_verify cfg md ok ch pw w = verify_cleanup cfg OTPW_ERROR ch None w"
      using Some by (auto simp: otpw_verify_def)
    with assms show ?thesis by simp
  next
    case False
    with assms Some show ?thesis
      by (simp add: otpw_verify_def Let_def split: option.splits bool.splits prod.splits if_splits)
  qed
qed

text \<open>
  Claim C3. When \<^verbatim>\<open>otpw_verify\<close> returns \<open>OTPW_WRONG\<close> or \<open>OTPW_ERROR\<close>, every file is
  byte for byte what it was before the call.
\<close>

theorem verify_failure_keeps_file:
  assumes "otpw_verify cfg md ok ch pw w = Some (r, ch', w')" and "r \<noteq> OTPW_OK"
  shows "files w' = files w"
proof -
  from verify_cases [OF assms(1)]
  consider "verify_cleanup cfg OTPW_ERROR ch None w = Some (r, ch', w')"
    | "verify_cleanup cfg OTPW_WRONG ch (Some (euid w, egid w))
                 (seteuid (uid ch) (setegid (gid ch) w)) = Some (r, ch', w')"
    | "verify_consume cfg ch (Some (euid w, egid w))
                 (seteuid (uid ch) (setegid (gid ch) w)) = Some (r, ch', w')"
    by blast
  then show ?thesis
  proof cases
    case 1
    from cleanup_result(3) [OF this] show ?thesis .
  next
    case 2
    from cleanup_result(3) [OF this] show ?thesis by simp
  next
    case 3
    from consume_result(1) [OF this] assms(2) show ?thesis by simp
  qed
qed

lemma otpw_free_allocated:
  assumes "handle_allocated cfg ch"
  shows "otpw_free cfg ch =
           Some (ch\<lparr>selection := Freed, hash := Freed, filename := Freed, lockfilename := Freed\<rparr>)"
proof -
  from assms obtain sel where s: "selection ch = Live sel"
    by (cases "selection ch") (simp_all add: handle_allocated_def)
  from assms obtain arr where h: "hash ch = Live arr" "nat (otpw_multi cfg) \<le> length arr"
    by (cases "hash ch") (simp_all add: handle_allocated_def)
  from assms obtain f where f: "filename ch = Live f"
    by (cases "filename ch") (simp_all add: handle_allocated_def)
  from assms obtain l where l: "lockfilename ch = Live l"
    by (cases "lockfilename ch") (simp_all add: handle_allocated_def)
  show ?thesis
    by (simp add: otpw_free_def free_ptr_def free_hash_def s h f l)
qed

lemma handle_allocated_upd [simp]:
  "handle_allocated cfg (ch\<lparr>passwords := n\<rparr>) = handle_allocated cfg ch"
  "handle_allocated cfg (ch\<lparr>locked := b\<rparr>) = handle_allocated cfg ch"
  "handle_allocated cfg (ch\<lparr>remaining := k\<rparr>) = handle_allocated cfg ch"
  by (simp_all add: handle_allocated_def)

lemma demo_allocated: "handle_allocated default_config demo_handle"
  by (simp add: handle_allocated_def demo_handle_def default_config_def)

lemma demo_handle_sel [simp]:
  "passwords demo_handle = 1" "pwlen demo_handle = 4" "locked demo_handle"
  "uid demo_handle = 1000" "gid demo_handle = 100"
  "filename demo_handle = Live ''/home/u/.otpw''"
  "lockfilename demo_handle = Live ''/home/u/.otpw.lock''"
  "entries demo_handle = 2" "challen demo_handle = 3" "hlen demo_handle = 12"
  "remaining demo_handle = 2" "selection demo_handle = Live [0, 0, 0]"
  by (simp_all add: demo_handle_def)

lemma demo_scan_wrong: "otpw_scan 1 4 (cstr ''fooabce'') = Some (''foo'', ''abce'')"
  by code_simp

lemma demo_compare_wrong: "compare_all md_demo demo_handle ''foo'' ''abce'' 0 = Some False"
  by code_simp

lemma demo_scan_ok: "otpw_scan 1 4 (cstr ''fooabcd'') = Some (''foo'', ''abcd'')"
  by code_simp

lemma demo_compare_ok: "compare_all md_demo demo_handle ''foo'' ''abcd'' 0 = Some True"
  by code_simp

lemma cleanup_allocated:
  assumes "handle_allocated cfg ch"
  shows "verify_cleanup cfg r ch old w =
     Some (r, ch\<lparr>passwords := 0, selection := Freed, hash := Freed, filename := Freed,
                 lockfilename := Freed\<rparr>,
           (let w1 = (if locked ch then (case lockfilename ch of Live p \<Rightarrow> unlink p w | _ \<Rightarrow> w) else w)
            in case old of None \<Rightarrow> w1
               | Some (olduid, oldgid) \<Rightarrow> setegid oldgid (seteuid olduid w1)))"
proof -
  from assms obtain l where l: "lockfilename ch = Live l"
    by (cases "lockfilename ch") (simp_all add: handle_allocated_def)
  have "handle_allocated cfg (ch\<lparr>passwords := 0\<rparr>)" using assms by simp
  from otpw_free_allocated [OF this] show ?thesis
    by (simp add: verify_cleanup_def l Let_def split: option.split)
qed

lemma demo_verify_wrong:
  "otpw_verify default_config md_demo True demo_handle (Some ''fooabce'') demo_world =
     verify_cleanup default_config OTPW_WRONG demo_handle (Some (euid demo_world, egid demo_world))
             (seteuid 1000 (setegid 100 demo_world))"
  by (simp add: otpw_verify_def default_config_def demo_scan_wrong demo_compare_wrong)

theorem verify_failure_keeps_file_witness:
  "\<exists>ch' w'. otpw_verify default_config md_demo True demo_handle (Some ''fooabce'') demo_world =
       Some (OTPW_WRONG, ch', w') \<and> files w' = files demo_world"
proof -
  obtain ch' w' where v: "otpw_verify default_config md_demo True demo_handle (Some ''fooabce'')
       demo_world = Some (OTPW_WRONG, ch', w')"
    unfolding demo_verify_wrong cleanup_allocated [OF demo_allocated] by blast
  have "files w' = files demo_world"
    using verify_failure_keeps_file [OF v] by simp
  with v show ?thesis by blast
qed

lemma demo_header: "read_header default_config ([], demo_file) = Some ((2, 3, 12, 4), demo_stream)"
  by code_simp

lemma demo_overwrite:
  "overwrite [0, 0, 0] 1 2 15 0 demo_stream 2 = (True, (demo_file_after, []), 1)"
  by code_simp

lemma demo_consume:
  "verify_consume default_config demo_handle old (seteuid 1000 (setegid 100 demo_world)) =
     verify_cleanup default_config OTPW_OK (demo_handle\<lparr>remaining := 1\<rparr>) old
       ((seteuid 1000 (setegid 100 demo_world))
          \<lparr>files := (files demo_world)(''/home/u/.otpw'' \<mapsto> demo_file_after)\<rparr>)"
proof -
  have f: "files demo_world ''/home/u/.otpw'' = Some demo_file"
    by (simp add: demo_world_def)
  have m: "\<not> c_int ((3 + 1) * otpw_multi default_config) > int (challenge_size default_config)"
    by (simp add: default_config_def c_int_def)
  have w: "c_int 15 = 15"
    by (simp add: c_int_id)
  have s: "selection_read demo_handle 2 = Some [0, 0, 0]"
    by (simp add: selection_read_def)
  show ?thesis
    using m by (simp add: verify_consume_def f demo_header demo_overwrite fclose_def w s)
qed

lemma demo_verify_ok:
  "otpw_verify default_config md_demo True demo_handle (Some ''fooabcd'') demo_world =
     Some (OTPW_OK, demo_handle_done, demo_world_done)"
proof -
  let ?w1 = "seteuid 1000 (setegid 100 demo_world)"
  let ?old = "Some (euid demo_world, egid demo_world)"
  have "otpw_verify default_config md_demo True demo_handle (Some ''fooabcd'') demo_world =
          verify_consume default_config demo_handle ?old ?w1"
    by (simp add: otpw_verify_def default_config_def demo_scan_ok demo_compare_ok)
  also have "\<dots> = verify_cleanup default_config OTPW_OK (demo_handle\<lparr>remaining := 1\<rparr>) ?old
       (?w1\<lparr>files := (files demo_world)(''/home/u/.otpw'' \<mapsto> demo_file_after)\<rparr>)"
    by (rule demo_consume)
  also have "\<dots> = Some (OTPW_OK, demo_handle_done, demo_world_done)"
    using demo_allocated
    by (simp add: cleanup_allocated demo_handle_done_def demo_world_done_def)
       (simp add: demo_world_def seteuid_def setegid_def unlink_def demo_handle_def)
  finally show ?thesis .
qed

lemma consume_reopen_fails:
  "reopen_fails cfg ch w \<Longrightarrow> verify_consume cfg ch old w = verify_writefail cfg ch old w"
  unfolding reopen_fails_def verify_consume_def
  by (cases "filename ch") (auto split: option.splits prod.splits)

lemma reopen_fails_ids:
  "reopen_fails cfg ch (seteuid u (setegid g w)) = reopen_fails cfg ch w"
  by (cases "filename ch") (simp_all add: reopen_fails_def)

lemma restore_ids:
  assumes "euid w = ruid w \<or> euid w = suid w" and "egid w = rgid w \<or> egid w = sgid w"
  shows "euid (setegid (egid w) (seteuid (euid w) (seteuid u (setegid g w)))) = euid w"
    and "egid (setegid (egid w) (seteuid (euid w) (seteuid u (setegid g w)))) = egid w"
  using assms by (auto simp: seteuid_def setegid_def)

lemma restore_ids_unlink:
  assumes "euid w = ruid w \<or> euid w = suid w" and "egid w = rgid w \<or> egid w = sgid w"
  shows "euid (setegid (egid w) (seteuid (euid w) (unlink p (seteuid u (setegid g w))))) = euid w"
    and "egid (setegid (egid w) (seteuid (euid w) (unlink p (seteuid u (setegid g w))))) = egid w"
  using assms by (auto simp: seteuid_def setegid_def unlink_def)

text \<open>
  Claim C8, as amended. If all entered passwords match their hashes but the file cannot
  be reopened or its header no longer matches the handle, \<^verbatim>\<open>otpw_verify\<close> still returns
  \<open>OTPW_OK\<close> and writes nothing; with a single password the lock symlink is kept. The
  effective uid and gid are restored when they were the real or the saved ids of the
  process at entry; otherwise \<^verbatim>\<open>seteuid\<close> or \<^verbatim>\<open>setegid\<close> can fail, which the code only
  logs.
\<close>

theorem verify_writefail_keeps_lock:
  assumes "1 \<le> passwords ch" and "passwords ch \<le> otpw_multi cfg"
    and "0 \<le> pwlen ch" and "passwords ch * pwlen ch \<le> 2147483647"
    and "handle_allocated cfg ch"
    and "otpw_scan (passwords ch) (pwlen ch) (cstr pw) = Some (prefix, otpw)"
    and "compare_all md ch prefix otpw 0 = Some True"
    and "reopen_fails cfg ch w"
  shows "\<exists>ch' w'. otpw_verify cfg md True ch (Some pw) w = Some (OTPW_OK, ch', w') \<and>
           files w' = files w \<and> remaining ch' = remaining ch \<and>
           (passwords ch = 1 \<longrightarrow> links w' = links w) \<and>
           ((euid w = ruid w \<or> euid w = suid w) \<and> (egid w = rgid w \<or> egid w = sgid w) \<longrightarrow>
              euid w' = euid w \<and> egid w' = egid w)"
proof -
  let ?w1 = "seteuid (uid ch) (setegid (gid ch) w)"
  let ?old = "Some (euid w, egid w)"
  let ?ch1 = "if passwords ch = 1 then ch\<lparr>locked := False\<rparr> else ch"
  obtain l where l: "lockfilename ch = Live l"
    using assms(5) by (cases "lockfilename ch") (simp_all add: handle_allocated_def)
  have v: "otpw_verify cfg md True ch (Some pw) w = verify_writefail cfg ch ?old ?w1"
    using assms(1-4,6-8)
    by (simp add: otpw_verify_def Let_def consume_reopen_fails reopen_fails_ids)
  have a: "handle_allocated cfg ?ch1" using assms(5) by simp
  have l1: "lockfilename ?ch1 = Live l" using l by simp
  define w2 where "w2 = (if locked ?ch1 then unlink l ?w1 else ?w1)"
  define w' where "w' = setegid (egid w) (seteuid (euid w) w2)"
  define ch' where "ch' = ?ch1\<lparr>passwords := 0, selection := Freed, hash := Freed,
                               filename := Freed, lockfilename := Freed\<rparr>"
  have r: "otpw_verify cfg md True ch (Some pw) w = Some (OTPW_OK, ch', w')"
    unfolding v verify_writefail_def cleanup_allocated [OF a]
    by (simp add: l1 w2_def w'_def ch'_def Let_def)
  have f: "files w' = files w"
    by (simp add: w'_def w2_def)
  have rem: "remaining ch' = remaining ch"
    by (simp add: ch'_def)
  have lk: "passwords ch = 1 \<longrightarrow> links w' = links w"
    by (simp add: w'_def w2_def)
  have ids: "euid w' = euid w \<and> egid w' = egid w"
    if "(euid w = ruid w \<or> euid w = suid w) \<and> (egid w = rgid w \<or> egid w = sgid w)"
    using that restore_ids [of w] restore_ids_unlink [of w]
    by (simp add: w'_def w2_def)
  from r f rem lk ids show ?thesis by blast
qed

lemma demo_nofile_fails: "reopen_fails default_config demo_handle demo_world_nofile"
  by (simp add: reopen_fails_def demo_world_nofile_def)

theorem verify_writefail_keeps_lock_witness:
  "reopen_fails default_config demo_handle demo_world_nofile \<and>
   (\<exists>ch' w'. otpw_verify default_config md_demo True demo_handle (Some ''fooabcd'')
               demo_world_nofile = Some (OTPW_OK, ch', w') \<and>
      files w' = files demo_world_nofile \<and> remaining ch' = remaining demo_handle \<and>
      links w' = links demo_world_nofile \<and>
      euid w' = euid demo_world_nofile \<and> egid w' = egid demo_world_nofile)"
proof -
  have ids: "(euid demo_world_nofile = ruid demo_world_nofile \<or>
              euid demo_world_nofile = suid demo_world_nofile) \<and>
             (egid demo_world_nofile = rgid demo_world_nofile \<or>
              egid demo_world_nofile = sgid demo_world_nofile)"
    by (simp add: demo_world_nofile_def demo_world_def)
  have m: "passwords demo_handle \<le> otpw_multi default_config"
    by (simp add: default_config_def)
  have s: "otpw_scan (passwords demo_handle) (pwlen demo_handle) (cstr ''fooabcd'') =
             Some (''foo'', ''abcd'')"
    by (simp add: demo_scan_ok)
  have p: "passwords demo_handle = 1" by simp
  from verify_writefail_keeps_lock [OF _ m _ _ demo_allocated s demo_compare_ok demo_nofile_fails]
  obtain ch' w' where
    "otpw_verify default_config md_demo True demo_handle (Some ''fooabcd'') demo_world_nofile =
       Some (OTPW_OK, ch', w')"
    "files w' = files demo_world_nofile" "remaining ch' = remaining demo_handle"
    "passwords demo_handle = 1 \<longrightarrow> links w' = links demo_world_nofile"
    "(euid demo_world_nofile = ruid demo_world_nofile \<or>
      euid demo_world_nofile = suid demo_world_nofile) \<and>
     (egid demo_world_nofile = rgid demo_world_nofile \<or>
      egid demo_world_nofile = sgid demo_world_nofile) \<longrightarrow>
       euid w' = euid demo_world_nofile \<and> egid w' = egid demo_world_nofile"
    by auto
  with ids p demo_nofile_fails show ?thesis by blast
qed

lemma demo_setuid_fails: "reopen_fails default_config demo_handle demo_world_setuid"
  by (simp add: reopen_fails_def demo_world_setuid_def)

text \<open>
  Claim C8 as stated fails: in a process with effective uid 0 and real and saved uid
  1000, the call returns \<open>OTPW_OK\<close> on the write failure and leaves the effective uid
  at 1000.
\<close>

theorem verify_writefail_ids_counterexample:
  "reopen_fails default_config demo_handle demo_world_setuid \<and>
   compare_all md_demo demo_handle ''foo'' ''abcd'' 0 = Some True \<and>
   otpw_verify default_config md_demo True demo_handle (Some ''fooabcd'') demo_world_setuid =
     Some (OTPW_OK, demo_handle_failed, demo_world_setuid\<lparr>euid := 1000\<rparr>) \<and>
   euid demo_world_setuid = 0"
proof -
  let ?w1 = "seteuid 1000 (setegid 100 demo_world_setuid)"
  let ?old = "Some (euid demo_world_setuid, egid demo_world_setuid)"
  have "otpw_verify default_config md_demo True demo_handle (Some ''fooabcd'') demo_world_setuid =
          verify_consume default_config demo_handle ?old ?w1"
    by (simp add: otpw_verify_def default_config_def demo_scan_ok demo_compare_ok)
  also have "\<dots> = verify_writefail default_config demo_handle ?old ?w1"
    by (rule consume_reopen_fails) (simp add: reopen_fails_ids demo_setuid_fails)
  also have "\<dots> = Some (OTPW_OK, demo_handle_failed, demo_world_setuid\<lparr>euid := 1000\<rparr>)"
    using demo_allocated
    by (simp add: verify_writefail_def cleanup_allocated demo_handle_failed_def)
       (simp add: demo_world_setuid_def seteuid_def setegid_def demo_handle_def)
  finally show ?thesis
    using demo_setuid_fails demo_compare_ok by (simp add: demo_world_setuid_def)
qed

lemma cleanup_frees_selection:
  assumes "verify_cleanup cfg r ch old w = Some (r', ch', w')" and "selection ch \<noteq> Null"
  shows "selection ch' = Freed"
proof -
  from assms(1) obtain c1 where fr: "otpw_free cfg (ch\<lparr>passwords := 0\<rparr>) = Some c1"
    and c1: "ch' = c1"
    by (auto simp: verify_cleanup_def Let_def split: option.splits)
  from fr assms(2) have "selection c1 = Freed"
    by (cases "selection ch") (auto simp: otpw_free_def free_ptr_def split: option.splits)
  with c1 show ?thesis by simp
qed

lemma writefail_frees_selection:
  assumes "verify_writefail cfg ch old w = Some (r', ch', w')" and "selection ch \<noteq> Null"
  shows "selection ch' = Freed"
  using assms cleanup_frees_selection [of cfg OTPW_OK _ old w r' ch' w']
  by (auto simp: verify_writefail_def split: if_splits)

lemma consume_frees_selection:
  assumes "verify_consume cfg ch old w = Some (r', ch', w')" and "selection ch \<noteq> Null"
  shows "selection ch' = Freed"
  using assms unfolding verify_consume_def Let_def
  by (auto split: ptr.splits option.splits prod.splits if_splits
           dest: writefail_frees_selection cleanup_frees_selection)

text \<open>A handle that \<^verbatim>\<open>otpw_verify\<close> has returned once cannot be passed to it again: the
  counter \<open>passwords\<close> is 0, and the second call releases the released storage again.\<close>

lemma verify_twice_undefined:
  assumes "otpw_verify cfg md ok ch pw w = Some (r, ch', w')" and "selection ch \<noteq> Null"
  shows "passwords ch' = 0" and "otpw_verify cfg2 md2 ok2 ch' pw2 w2 = None"
proof -
  from verify_cases [OF assms(1)]
  have "passwords ch' = 0 \<and> selection ch' = Freed"
    using assms(2)
    by (auto dest: cleanup_result(2) consume_result(2) cleanup_frees_selection
                   consume_frees_selection)
  then have p: "passwords ch' = 0" and s: "selection ch' = Freed" by simp_all
  from p show "passwords ch' = 0" .
  have "otpw_free cfg2 (ch'\<lparr>passwords := 0\<rparr>) = None"
    using s by (simp add: otpw_free_def free_ptr_def)
  then have "verify_cleanup cfg2 OTPW_ERROR ch' None w2 = None"
    by (simp add: verify_cleanup_def Let_def split: option.splits)
  then show "otpw_verify cfg2 md2 ok2 ch' pw2 w2 = None"
    using p by (simp add: otpw_verify_def split: option.splits)
qed

text \<open>
  Claim C9, at a concrete handle: after the call has returned \<open>OTPW_OK\<close> the counter
  \<open>passwords\<close> is 0, and a second call on the handle does not return \<open>OTPW_ERROR\<close>: its
  behaviour is undefined.
\<close>

theorem second_verify_undefined:
  "otpw_verify default_config md_demo True demo_handle (Some ''fooabcd'') demo_world =
     Some (OTPW_OK, demo_handle_done, demo_world_done) \<and>
   passwords demo_handle_done = 0 \<and>
   otpw_verify default_config md_demo True demo_handle_done (Some ''fooabcd'') demo_world_done =
     None"
proof -
  have s: "selection demo_handle \<noteq> Null" by simp
  from verify_twice_undefined [OF demo_verify_ok s] demo_verify_ok
  show ?thesis by simp
qed

theorem second_verify_undefined_witness:
  "passwords demo_handle_done = 0 \<and>
   otpw_verify default_config md_demo True demo_handle_done (Some ''fooabcd'') demo_world_done =
     None"
  using second_verify_undefined by blast

section \<open>Properties of \<^verbatim>\<open>otpw_prepare\<close>\<close>


lemma prepare_cleanup_allocated:
  assumes "handle_allocated cfg ch" and "challenge ch = []"
  shows "prepare_cleanup cfg ch ops =
           Returns (ch\<lparr>selection := Freed, hash := Freed, filename := Freed,
                       lockfilename := Freed\<rparr>, ops)"
  using assms by (simp add: prepare_cleanup_def otpw_free_allocated)


lemma read_lock_challen [simp]: "read_lock env (ch\<lparr>challenge := c\<rparr>) path ops = read_lock env ch path ops"
  by (simp add: read_lock_def split: readlink_result.split)





lemma lock_loop_fresh:
  assumes "symlink_res env 0 = Symlink_eexist" and "lstat_res env 0 = Lstat_ok age"
    and "\<not> (0 < otpw_locktimeout cfg \<and> otpw_locktimeout cfg < age)"
  shows "lock_loop cfg env label path 0 = (Busy, [])"
  using assms by (subst lock_loop.simps) auto


lemma store_header_fields [simp]:
  "challenge (store_header ch vals) = challenge ch"
  "passwords (store_header ch vals) = passwords ch"
  "locked (store_header ch vals) = locked ch"
  "flags (store_header ch vals) = flags ch"
  by (simp_all add: store_header_def Let_def)



text \<open>
  Claim C1, at a concrete input: another session holds the lock on the entry \<open>ABC\<close>,
  and the multi-challenge selects this entry first. The test compares the held label
  with the bytes of the hash, which follow the label in the table, not with the label.
\<close>

theorem prepare_selects_held_entry:
  "readlink_res (demo_env demo_file10 (Readlink_ok ''ABC'') (\<lambda>n. 0)) = Readlink_ok ''ABC'' \<and>
   otpw_prepare default_config (demo_env demo_file10 (Readlink_ok ''ABC'') (\<lambda>n. 0)) demo_handle0
       (Some demo_user) 0 =
     Some (Returns (demo_multi ''ABC/DEF/GHI'' [0, 1, 2]
                      [Some ''aaaaaaaaaaaa'', Some ''bbbbbbbbbbbb'', Some ''cccccccccccc''], []))"
  by code_simp

theorem prepare_selects_held_entry_witness:
  "\<exists>ch. otpw_prepare default_config (demo_env demo_file10 (Readlink_ok ''ABC'') (\<lambda>n. 0)) demo_handle0
       (Some demo_user) 0 = Some (Returns (ch, [])) \<and> take 3 (challenge ch) = ''ABC''"
proof -
  have "take 3 (challenge (demo_multi ''ABC/DEF/GHI'' [0, 1, 2]
                      [Some ''aaaaaaaaaaaa'', Some ''bbbbbbbbbbbb'', Some ''cccccccccccc''])) = ''ABC''"
    by (simp add: demo_multi_def)
  with prepare_selects_held_entry show ?thesis by blast
qed




text \<open>
  Claim C7, as amended. When the attempts to get the lock have ended without the lock:
  if \<^verbatim>\<open>readlink\<close> fails (other than by the lock having vanished), \<^verbatim>\<open>otpw_prepare\<close> fails
  with an empty challenge and does not remove the lock; if the target of the lock has
  not the length \<open>challen\<close>, the lock is removed and the multi-challenge goes on with
  the bytes read.
\<close>

theorem prepare_multi_bad_lock:
  "(readlink_res env = Readlink_error \<and> handle_allocated cfg ch \<longrightarrow>
      prepare_multi cfg env ch path hbuflen hbuf ops =
        Some (Returns (ch\<lparr>challenge := [], selection := Freed, hash := Freed, filename := Freed,
                         lockfilename := Freed\<rparr>, ops))) \<and>
   (readlink_res env = Readlink_ok t \<and> t \<noteq> [] \<and> int (length (cstr (take 80 t))) \<noteq> challen ch \<longrightarrow>
      prepare_multi cfg env ch path hbuflen hbuf ops =
        multi_stage cfg env (ch\<lparr>challenge := []\<rparr>) (cstr (take 80 t)) hbuflen hbuf
          (ops @ [Op_unlink path]))"
proof (rule conjI; rule impI)
  assume a: "readlink_res env = Readlink_error \<and> handle_allocated cfg ch"
  then have "read_lock env (ch\<lparr>challenge := []\<rparr>) path ops = None"
    by (simp add: read_lock_def)
  moreover have "handle_allocated cfg (ch\<lparr>challenge := []\<rparr>)"
    using a by (simp add: handle_allocated_def)
  ultimately show "prepare_multi cfg env ch path hbuflen hbuf ops =
        Some (Returns (ch\<lparr>challenge := [], selection := Freed, hash := Freed, filename := Freed,
                         lockfilename := Freed\<rparr>, ops))"
    by (simp add: prepare_multi_def prepare_cleanup_allocated)
next
  assume a: "readlink_res env = Readlink_ok t \<and> t \<noteq> [] \<and>
             int (length (cstr (take 80 t))) \<noteq> challen ch"
  then have "read_lock env (ch\<lparr>challenge := []\<rparr>) path ops =
               Some (cstr (take 80 t), ops @ [Op_unlink path])"
    by (simp add: read_lock_def Let_def)
  then show "prepare_multi cfg env ch path hbuflen hbuf ops =
        multi_stage cfg env (ch\<lparr>challenge := []\<rparr>) (cstr (take 80 t)) hbuflen hbuf
          (ops @ [Op_unlink path])"
    by (simp add: prepare_multi_def)
qed

text \<open>
  Claim C7 as stated fails: with a lock whose target \<open>ABCD\<close> is too long the call removes
  the lock and returns a multi-challenge; when \<^verbatim>\<open>readlink\<close> fails the call returns an
  empty challenge and has not removed the lock.
\<close>

theorem prepare_corrupt_lock_counterexample:
  "otpw_prepare default_config (demo_env demo_file10 (Readlink_ok ''ABCD'') (\<lambda>n. int n + 6))
       demo_handle0 (Some demo_user) 0 =
     Some (Returns (demo_multi ''STU/VWX/YZa'' [6, 7, 8]
                      [Some ''gggggggggggg'', Some ''hhhhhhhhhhhh'', Some ''iiiiiiiiiiii''],
                    [Op_unlink ''/home/u/.otpw.lock''])) \<and>
   otpw_prepare default_config (demo_env demo_file10 Readlink_error (\<lambda>n. int n + 6))
       demo_handle0 (Some demo_user) 0 =
     Some (Returns (demo_failed 10 10, []))"
  by code_simp

theorem prepare_multi_bad_lock_witness:
  "prepare_multi default_config (demo_env demo_file10 Readlink_error (\<lambda>n. 0)) demo_handle
       ''/home/u/.otpw.lock'' 15 [] [] =
     Some (Returns (demo_handle\<lparr>challenge := [], selection := Freed, hash := Freed,
                      filename := Freed, lockfilename := Freed\<rparr>, [])) \<and>
   prepare_multi default_config (demo_env demo_file10 (Readlink_ok ''ABCD'') (\<lambda>n. 0)) demo_handle
       ''/home/u/.otpw.lock'' 15 [] [] =
     multi_stage default_config (demo_env demo_file10 (Readlink_ok ''ABCD'') (\<lambda>n. 0))
       (demo_handle\<lparr>challenge := []\<rparr>) (cstr (take 80 ''ABCD'')) 15 []
       ([] @ [Op_unlink ''/home/u/.otpw.lock''])"
proof -
  let ?e1 = "demo_env demo_file10 Readlink_error (\<lambda>n. 0)"
  let ?e2 = "demo_env demo_file10 (Readlink_ok ''ABCD'') (\<lambda>n. 0)"
  have h1: "readlink_res ?e1 = Readlink_error \<and> handle_allocated default_config demo_handle"
    using demo_allocated by (simp add: demo_env_def)
  have h2: "readlink_res ?e2 = Readlink_ok ''ABCD'' \<and> ''ABCD'' \<noteq> [] \<and>
            int (length (cstr (take 80 ''ABCD''))) \<noteq> challen demo_handle"
    by (simp add: demo_env_def cstr_def NUL_def)
  from prepare_multi_bad_lock [of ?e1 default_config demo_handle "''/home/u/.otpw.lock''" 15
         "[]" "[]" "''ABCD''"] h1
  have a: "prepare_multi default_config ?e1 demo_handle ''/home/u/.otpw.lock'' 15 [] [] =
     Some (Returns (demo_handle\<lparr>challenge := [], selection := Freed, hash := Freed,
                      filename := Freed, lockfilename := Freed\<rparr>, []))"
    by blast
  from prepare_multi_bad_lock [of ?e2 default_config demo_handle "''/home/u/.otpw.lock''" 15
         "[]" "[]" "''ABCD''"] h2
  have b: "prepare_multi default_config ?e2 demo_handle ''/home/u/.otpw.lock'' 15 [] [] =
     multi_stage default_config ?e2 (demo_handle\<lparr>challenge := []\<rparr>) (cstr (take 80 ''ABCD'')) 15 []
       ([] @ [Op_unlink ''/home/u/.otpw.lock''])"
    by blast
  from a b show ?thesis by (rule conjI)
qed

lemma strncmp_eq_take:
  "n \<le> length s1 \<Longrightarrow> strncmp_eq s1 s2 n = strncmp_eq (take n s1) s2 n"
proof (induction s1 s2 n rule: strncmp_eq.induct)
  case (4 a s1 b s2 n)
  then show ?case by simp
qed simp_all

lemma strncmp_eq_defined:
  "n \<le> length s1 \<Longrightarrow> strncmp_eq s1 s2 n \<noteq> None"
  by (induction s1 s2 n rule: strncmp_eq.induct) auto

text \<open>Where the rows lie in the table.\<close>

lemma row_bounds:
  assumes "table_ok ents hbuflen chl hl hbuf" and "0 \<le> j" and "j < ents"
  shows "0 \<le> j * hbuflen" and "nat (j * hbuflen) < length hbuf"
    and "nat (j * hbuflen + chl) + nat chl \<le> nat ((j + 1) * hbuflen)"
    and "nat ((j + 1) * hbuflen) \<le> length hbuf"
    and "nat (j * hbuflen + chl) = nat (j * hbuflen) + nat chl"
proof -
  from assms have h: "2 \<le> hbuflen" "1 \<le> chl" "chl \<le> hl" "hbuflen = chl + hl"
    and len: "length hbuf = nat (ents * hbuflen)"
    by (auto simp: table_ok_def)
  from assms(2) h show a: "0 \<le> j * hbuflen" by simp
  have "(j + 1) * hbuflen \<le> ents * hbuflen"
    using assms(3) h by (intro mult_right_mono) auto
  then show b: "nat ((j + 1) * hbuflen) \<le> length hbuf" using len by simp
  have c: "j * hbuflen + hbuflen = (j + 1) * hbuflen" by (simp add: algebra_simps)
  have "j * hbuflen < (j + 1) * hbuflen" using c h by linarith
  then have "nat (j * hbuflen) < nat ((j + 1) * hbuflen)" using a by linarith
  with b show "nat (j * hbuflen) < length hbuf" by linarith
  have "j * hbuflen + chl + chl \<le> (j + 1) * hbuflen" using c h by linarith
  then show "nat (j * hbuflen + chl) + nat chl \<le> nat ((j + 1) * hbuflen)"
    using a h by linarith
  from a h show "nat (j * hbuflen + chl) = nat (j * hbuflen) + nat chl"
    by linarith
qed

lemma rejected_defined:
  assumes "table_ok ents hbuflen chl hl hbuf" and "0 \<le> j" and "j < ents"
  shows "rejected hbuf hbuflen chl lock j \<noteq> None"
proof -
  note b = row_bounds [OF assms]
  have "nat chl \<le> length (drop (nat (j * hbuflen + chl)) hbuf)"
    using b(3,4) by simp
  from strncmp_eq_defined [OF this] b(1,2) show ?thesis
    by (auto simp: rejected_def)
qed

lemma rand_pick_returns:
  assumes "table_ok ents hbuflen chl hl hbuf"
  shows "\<exists>j k'. rand_pick env hbuf ents hbuflen chl lock count k = Returns (j, k') \<and>
                 0 \<le> j \<and> j < ents"
  using assms
proof (induction env hbuf ents hbuflen chl lock count k rule: rand_pick.induct)
  case (1 env hbuf ents hbuflen chl lock count k)
  define j where "j = (rnd env k mod 4294967296) mod ents"
  from 1(2) have e: "1 \<le> ents" by (simp add: table_ok_def)
  then have jr: "0 \<le> j" "j < ents" by (simp_all add: j_def)
  from rejected_defined [OF 1(2) jr] obtain r where r: "rejected hbuf hbuflen chl lock j = Some r"
    by auto
  show ?case
  proof (cases "r \<and> count < 2 * ents")
    case True
    with 1(1) [OF j_def r _ 1(2)] r show ?thesis
      by (subst rand_pick.simps) (simp add: j_def [symmetric])
  next
    case False
    with r jr show ?thesis
      by (subst rand_pick.simps) (auto simp: j_def [symmetric])
  qed
qed

lemma fallback_scan_finds_aux:
  assumes "table_ok ents hbuflen chl hl hbuf"
    and "0 \<le> a" and "a < ents" and "rejected hbuf hbuflen chl lock a = Some False"
  shows "0 \<le> j0 \<Longrightarrow> j0 < ents \<Longrightarrow> nat ((a - j0) mod ents) = d \<Longrightarrow>
         \<exists>j. fallback_scan hbuf ents hbuflen chl lock j0 = Some (Returns j) \<and>
             0 \<le> j \<and> j < ents \<and> rejected hbuf hbuflen chl lock j = Some False"
proof (induction d arbitrary: j0)
  case 0
  from assms(1) have e: "1 \<le> ents" by (simp add: table_ok_def)
  have z: "(a - j0) mod ents \<le> 0" using 0(3) by simp
  have "a = j0"
  proof (cases "j0 \<le> a")
    case True
    then have "(a - j0) mod ents = a - j0"
      using assms(3) 0(1) by (simp add: mod_pos_pos_trivial)
    with z True show ?thesis by simp
  next
    case False
    then have "0 \<le> a - j0 + ents" "a - j0 + ents < ents"
      using assms(2) 0(2) by simp_all
    then have "(a - j0 + ents) mod ents = a - j0 + ents"
      by (rule mod_pos_pos_trivial)
    moreover have "(a - j0 + ents) mod ents = (a - j0) mod ents"
      by simp
    ultimately have "(a - j0) mod ents = a - j0 + ents" by (simp only:)
    with z assms(2) 0(2) show ?thesis by simp
  qed
  with assms(4) 0 show ?case
    by (subst fallback_scan.simps) simp
next
  case (Suc d)
  from assms(1) have e: "1 \<le> ents" by (simp add: table_ok_def)
  from rejected_defined [OF assms(1) Suc(2,3)] obtain r where
    r: "rejected hbuf hbuflen chl lock j0 = Some r" by auto
  show ?case
  proof (cases r)
    case False
    with r Suc(2,3) show ?thesis
      by (subst fallback_scan.simps) simp
  next
    case True
    define j1 where "j1 = (j0 + 1) mod ents"
    have j1: "0 \<le> j1" "j1 < ents" using e by (simp_all add: j1_def)
    have "(a - j1) mod ents = (a - (j0 + 1)) mod ents"
      unfolding j1_def by (simp add: mod_diff_right_eq)
    also have "\<dots> = ((a - j0) mod ents - 1) mod ents"
      by (simp add: mod_diff_left_eq algebra_simps)
    also have "\<dots> = (a - j0) mod ents - 1"
    proof -
      have "0 < (a - j0) mod ents" using Suc(4) by linarith
      moreover have "(a - j0) mod ents < ents" using e by simp
      ultimately show ?thesis by (simp add: mod_pos_pos_trivial)
    qed
    finally have "nat ((a - j1) mod ents) = d" using Suc(4) by linarith
    from Suc(1) [OF j1 this] True r show ?thesis
      by (subst fallback_scan.simps) (simp add: j1_def)
  qed
qed

lemma fallback_scan_finds:
  assumes "table_ok ents hbuflen chl hl hbuf"
    and "0 \<le> a" and "a < ents" and "rejected hbuf hbuflen chl lock a = Some False"
    and "0 \<le> j0" and "j0 < ents"
  shows "\<exists>j. fallback_scan hbuf ents hbuflen chl lock j0 = Some (Returns j) \<and>
             0 \<le> j \<and> j < ents \<and> rejected hbuf hbuflen chl lock j = Some False"
  using fallback_scan_finds_aux [OF assms(1-4) assms(5,6) refl] .

lemma take_drop_update_outside:
  assumes "i < off \<or> off + n \<le> i"
  shows "take n (drop off (xs[i := c])) = take n (drop off xs)"
proof (cases "i < off")
  case True
  then show ?thesis by simp
next
  case False
  with assms have "off \<le> i" "n \<le> i - off" by simp_all
  then show ?thesis by (simp add: drop_update_swap)
qed

lemma table_ok_update [simp]:
  "table_ok ents hbuflen chl hl (hbuf[i := c]) = table_ok ents hbuflen chl hl hbuf"
  by (simp add: table_ok_def)

lemma rejected_update_same:
  assumes "table_ok ents hbuflen chl hl hbuf" and "0 \<le> j" and "j < ents"
  shows "rejected (hbuf[nat (j * hbuflen) := CHR ''-'']) hbuflen chl lock j = Some True"
  using row_bounds(1,2) [OF assms] by (simp add: rejected_def)

lemma row_start_mono:
  assumes "table_ok ents hbuflen chl hl hbuf" and "0 \<le> j" and "j < j'"
  shows "nat ((j + 1) * hbuflen) \<le> nat (j' * hbuflen)"
proof -
  from assms(1) have "0 \<le> hbuflen" by (simp add: table_ok_def)
  then have "(j + 1) * hbuflen \<le> j' * hbuflen"
    using assms(3) by (intro mult_right_mono) auto
  then show ?thesis by simp
qed

lemma rejected_update_other:
  assumes "table_ok ents hbuflen chl hl hbuf" and "0 \<le> j" and "j < ents"
    and "0 \<le> j'" and "j' < ents" and "j' \<noteq> j"
  shows "rejected (hbuf[nat (j * hbuflen) := c]) hbuflen chl lock j' =
         rejected hbuf hbuflen chl lock j'"
proof -
  let ?i = "nat (j * hbuflen)" and ?off = "nat (j' * hbuflen + chl)" and ?n = "nat chl"
  let ?hbuf' = "hbuf[?i := c]"
  note b = row_bounds [OF assms(1,2,3)] and b' = row_bounds [OF assms(1,4,5)]
  from assms(1) have h: "1 \<le> chl" by (simp add: table_ok_def)
  have out: "?i < ?off \<or> ?off + ?n \<le> ?i" and ne: "?i \<noteq> nat (j' * hbuflen)"
  proof -
    consider "j < j'" | "j' < j" using assms(6) by linarith
    then have "(?i < ?off \<or> ?off + ?n \<le> ?i) \<and> ?i \<noteq> nat (j' * hbuflen)"
    proof cases
      case 1
      from row_start_mono [OF assms(1,2) 1] b(3) b'(5) h
      have "?i < nat (j' * hbuflen)" by linarith
      with b'(5) show ?thesis by linarith
    next
      case 2
      from row_start_mono [OF assms(1,4) 2] b'(3) b'(5) h
      show ?thesis by linarith
    qed
    then show "?i < ?off \<or> ?off + ?n \<le> ?i" and "?i \<noteq> nat (j' * hbuflen)" by simp_all
  qed
  have len: "?n \<le> length (drop ?off hbuf)" "?n \<le> length (drop ?off ?hbuf')"
    using b'(3,4) by simp_all
  have "strncmp_eq (drop ?off ?hbuf') lock ?n = strncmp_eq (take ?n (drop ?off ?hbuf')) lock ?n"
    by (rule strncmp_eq_take [OF len(2)])
  also have "\<dots> = strncmp_eq (take ?n (drop ?off hbuf)) lock ?n"
    by (simp only: take_drop_update_outside [OF out])
  also have "\<dots> = strncmp_eq (drop ?off hbuf) lock ?n"
    by (rule strncmp_eq_take [OF len(1), symmetric])
  finally have s: "strncmp_eq (drop ?off ?hbuf') lock ?n = strncmp_eq (drop ?off hbuf) lock ?n" .
  have "?hbuf' ! nat (j' * hbuflen) = hbuf ! nat (j' * hbuflen)"
    using ne by simp
  with s b'(1,2) show ?thesis by (simp add: rejected_def)
qed

lemma filter_length_remove:
  assumes "distinct xs" and "j \<in> set xs" and "P j" and "\<not> Q j"
    and "\<And>x. x \<in> set xs \<Longrightarrow> x \<noteq> j \<Longrightarrow> Q x = P x"
  shows "length (filter P xs) = Suc (length (filter Q xs))"
  using assms
proof (induction xs)
  case Nil
  then show ?case by simp
next
  case (Cons x xs)
  show ?case
  proof (cases "x = j")
    case True
    with Cons.prems have "j \<notin> set xs" by simp
    then have "filter Q xs = filter P xs"
      using Cons.prems(5) by (intro filter_cong refl) auto
    with True Cons.prems(3,4) show ?thesis by simp
  next
    case False
    with Cons.prems have "length (filter P xs) = Suc (length (filter Q xs))"
      by (intro Cons.IH) auto
    moreover have "Q x = P x" using Cons.prems(5) False by simp
    ultimately show ?thesis by simp
  qed
qed

lemma acceptable_count_update:
  assumes "table_ok ents hbuflen chl hl hbuf" and "0 \<le> j" and "j < ents"
    and "rejected hbuf hbuflen chl lock j = Some False"
  shows "acceptable_count hbuf ents hbuflen chl lock =
         Suc (acceptable_count (hbuf[nat (j * hbuflen) := CHR ''-'']) ents hbuflen chl lock)"
  unfolding acceptable_count_def
proof (rule filter_length_remove [where j = j])
  show "distinct [0..ents - 1]" by simp
  show "j \<in> set [0..ents - 1]" using assms(2,3) by simp
  show "rejected hbuf hbuflen chl lock j = Some False" by (rule assms(4))
  show "rejected (hbuf[nat (j * hbuflen) := CHR ''-'']) hbuflen chl lock j \<noteq> Some False"
    using rejected_update_same [OF assms(1-3)] by simp
  fix x assume "x \<in> set [0..ents - 1]" "x \<noteq> j"
  then have "0 \<le> x" "x < ents" by simp_all
  from rejected_update_other [OF assms(1-3) this \<open>x \<noteq> j\<close>]
  show "(rejected (hbuf[nat (j * hbuflen) := CHR ''-'']) hbuflen chl lock x = Some False) =
        (rejected hbuf hbuflen chl lock x = Some False)" by simp
qed

lemma acceptable_exists:
  assumes "0 < acceptable_count hbuf ents hbuflen chl lock"
  shows "\<exists>a. 0 \<le> a \<and> a < ents \<and> rejected hbuf hbuflen chl lock a = Some False"
proof -
  from assms have "filter (\<lambda>j. rejected hbuf hbuflen chl lock j = Some False) [0..ents - 1] \<noteq> []"
    by (simp add: acceptable_count_def)
  then obtain a where "a \<in> set [0..ents - 1]" "rejected hbuf hbuflen chl lock a = Some False"
    by (auto simp: filter_empty_conv)
  then show ?thesis by auto
qed

text \<open>
  Claim C10, as amended. The multi-challenge selection loop of \<^verbatim>\<open>otpw_prepare\<close> returns
  whenever the table holds at least as many acceptable rows as passwords are still to be
  selected, an acceptable row being one that is live and whose compared \<open>challen\<close> bytes
  differ from the target of the lock; \<open>challen \<le> hlen\<close> keeps the compared bytes inside
  the row. The number of live rows alone does not bound the fallback scan.
\<close>

theorem multi_loop_terminates:
  assumes "table_ok ents hbuflen (challen ch) (hlen ch) hbuf"
    and "0 \<le> passwords ch"
    and "length (sel_arr ch) = nat (otpw_multi cfg)"
    and "length (hash_arr ch) = nat (otpw_multi cfg)"
    and "otpw_multi cfg - passwords ch \<le> int (acceptable_count hbuf ents hbuflen (challen ch) lock)"
  shows "\<exists>ch'. multi_loop cfg env lock ents hbuflen (hbuf, ch, k) = Some (Returns ch')"
  using assms
proof (induction n \<equiv> "nat (otpw_multi cfg - passwords ch)" arbitrary: hbuf ch k rule: less_induct)
  case less
  let ?chl = "challen ch"
  show ?case
  proof (cases "passwords ch < otpw_multi cfg \<and>
           int (length (challenge ch)) < (int (challenge_size cfg) - challen ch - 2) mod 2 ^ 64")
    case False
    then show ?thesis
      by (subst multi_loop.simps) auto
  next
    case True
    then have "0 < acceptable_count hbuf ents hbuflen ?chl lock"
      using less.prems(5) by linarith
    from acceptable_exists [OF this] obtain a where
      a: "0 \<le> a" "a < ents" "rejected hbuf hbuflen ?chl lock a = Some False" by blast
    from rand_pick_returns [OF less.prems(1)] obtain j0 k' where
      rp: "rand_pick env hbuf ents hbuflen ?chl lock 0 k = Returns (j0, k')"
      and j0: "0 \<le> j0" "j0 < ents" by blast
    from fallback_scan_finds [OF less.prems(1) a j0] obtain j where
      fs: "fallback_scan hbuf ents hbuflen ?chl lock j0 = Some (Returns j)"
      and j: "0 \<le> j" "j < ents" "rejected hbuf hbuflen ?chl lock j = Some False" by blast
    define n where "n = nat (passwords ch)"
    have n: "n < length (hash_arr ch)" "n < length (sel_arr ch)"
      using True less.prems(2,3,4) by (simp_all add: n_def)
    define ch1 where "ch1 = ch\<lparr>challenge := challenge ch @ (if passwords ch \<noteq> 0 then ''/'' else [])
                           @ cstr (take (nat ?chl) (drop (nat (j * hbuflen)) hbuf))\<rparr>"
    define ch2 where "ch2 = ch1\<lparr>hash := Live ((hash_arr ch)[n :=
                                      Some (cstr (take (nat (hlen ch))
                                                   (drop (nat (j * hbuflen + ?chl)) hbuf)))]),
                                   selection := Live ((sel_arr ch)[n := j]),
                                   passwords := passwords ch + 1\<rparr>"
    define hbuf' where "hbuf' = hbuf[nat (j * hbuflen) := CHR ''-'']"
    have unfold: "multi_loop cfg env lock ents hbuflen (hbuf, ch, k) =
        (if hash_arr ch ! n = None \<and> \<not> alloc_ok env (5 + n) then Some (Returns ch1)
         else multi_loop cfg env lock ents hbuflen (hbuf', ch2, k'))"
      using True rp fs n
      by (subst multi_loop.simps)
         (simp add: Let_def n_def [symmetric] ch1_def [symmetric] ch2_def [symmetric]
            hbuf'_def [symmetric])
    show ?thesis
    proof (cases "hash_arr ch ! n = None \<and> \<not> alloc_ok env (5 + n)")
      case True
      with unfold show ?thesis by simp
    next
      case False
      have f: "challen ch2 = challen ch" "hlen ch2 = hlen ch"
        "passwords ch2 = passwords ch + 1"
        "sel_arr ch2 = (sel_arr ch)[n := j]"
        "length (hash_arr ch2) = length (hash_arr ch)"
        by (simp_all add: ch2_def ch1_def sel_arr_def hash_arr_def)
      have "\<exists>ch'. multi_loop cfg env lock ents hbuflen (hbuf', ch2, k') = Some (Returns ch')"
      proof (rule less.hyps)
        show "nat (otpw_multi cfg - passwords ch2) < nat (otpw_multi cfg - passwords ch)"
          using True f(3) by linarith
        show "table_ok ents hbuflen (challen ch2) (hlen ch2) hbuf'"
          using less.prems(1) by (simp add: f hbuf'_def)
        show "0 \<le> passwords ch2" using less.prems(2) f(3) by simp
        show "length (sel_arr ch2) = nat (otpw_multi cfg)"
          using less.prems(3) by (simp add: f)
        show "length (hash_arr ch2) = nat (otpw_multi cfg)"
          using less.prems(4) by (simp add: f)
        have "acceptable_count hbuf ents hbuflen ?chl lock =
                Suc (acceptable_count hbuf' ents hbuflen ?chl lock)"
          unfolding hbuf'_def by (rule acceptable_count_update [OF less.prems(1) j])
        with less.prems(5)
        show "otpw_multi cfg - passwords ch2
                \<le> int (acceptable_count hbuf' ents hbuflen (challen ch2) lock)"
          by (simp add: f)
      qed
      with unfold False show ?thesis by simp
    qed
  qed
qed

lemma fallback_scan_diverges:
  assumes "\<forall>j. 0 \<le> j \<and> j < ents \<longrightarrow> rejected hbuf hbuflen chl lock j = Some True"
    and "0 \<le> j" and "j < ents"
  shows "fallback_scan hbuf ents hbuflen chl lock j = None"
proof (rule ccontr)
  assume "fallback_scan hbuf ents hbuflen chl lock j \<noteq> None"
  then obtain r where r: "fallback_scan hbuf ents hbuflen chl lock j = Some r" by auto
  have "(\<forall>j. 0 \<le> j \<and> j < ents \<longrightarrow> rejected hbuf hbuflen chl lock j = Some True) \<and>
        0 \<le> j \<and> j < ents \<longrightarrow> False"
  proof (rule fallback_scan.raw_induct
      [where P = "\<lambda>hbuf ents hbuflen chl lock j r.
          (\<forall>j. 0 \<le> j \<and> j < ents \<longrightarrow> rejected hbuf hbuflen chl lock j = Some True) \<and>
          0 \<le> j \<and> j < ents \<longrightarrow> False", OF _ r])
    fix f hbuf ents hbuflen chl lock j r
    assume IH: "\<And>hbuf ents hbuflen chl lock j r. f hbuf ents hbuflen chl lock j = Some r \<Longrightarrow>
        (\<forall>j. 0 \<le> j \<and> j < ents \<longrightarrow> rejected hbuf hbuflen chl lock j = Some True) \<and>
        0 \<le> j \<and> j < ents \<longrightarrow> False"
      and body: "(case rejected hbuf hbuflen chl lock j of None \<Rightarrow> Some Undefined
        | Some r \<Rightarrow> if r then f hbuf ents hbuflen chl lock ((j + 1) mod ents)
                    else Some (Returns j)) = Some r"
    show "(\<forall>j. 0 \<le> j \<and> j < ents \<longrightarrow> rejected hbuf hbuflen chl lock j = Some True) \<and>
          0 \<le> j \<and> j < ents \<longrightarrow> False"
    proof
      assume a: "(\<forall>j. 0 \<le> j \<and> j < ents \<longrightarrow> rejected hbuf hbuflen chl lock j = Some True) \<and>
                 0 \<le> j \<and> j < ents"
      then have "rejected hbuf hbuflen chl lock j = Some True" by blast
      with body have "f hbuf ents hbuflen chl lock ((j + 1) mod ents) = Some r" by simp
      moreover have "0 \<le> (j + 1) mod ents" "(j + 1) mod ents < ents" using a by simp_all
      ultimately show False using IH a by blast
    qed
  qed
  with assms show False by blast
qed

lemma rand_pick_all_rejected:
  assumes "\<forall>j. 0 \<le> j \<and> j < ents \<longrightarrow> rejected hbuf hbuflen chl lock j = Some True"
    and "1 \<le> ents"
  shows "\<exists>j k'. rand_pick env hbuf ents hbuflen chl lock count k = Returns (j, k') \<and>
                 0 \<le> j \<and> j < ents"
  using assms
proof (induction env hbuf ents hbuflen chl lock count k rule: rand_pick.induct)
  case (1 env hbuf ents hbuflen chl lock count k)
  define j where "j = (rnd env k mod 4294967296) mod ents"
  from 1(3) have jr: "0 \<le> j" "j < ents" by (simp_all add: j_def)
  with 1(2) have r: "rejected hbuf hbuflen chl lock j = Some True" by blast
  show ?case
  proof (cases "count < 2 * ents")
    case True
    with 1(1) [OF j_def r _ 1(2,3)] r show ?thesis
      by (subst rand_pick.simps) (simp add: j_def [symmetric])
  next
    case False
    with r jr show ?thesis
      by (subst rand_pick.simps) (auto simp: j_def [symmetric])
  qed
qed

lemma multi_loop_diverges:
  assumes "\<forall>j. 0 \<le> j \<and> j < ents \<longrightarrow> rejected hbuf hbuflen (challen ch) lock j = Some True"
    and "1 \<le> ents"
    and "passwords ch < otpw_multi cfg"
    and "int (length (challenge ch)) < (int (challenge_size cfg) - challen ch - 2) mod 2 ^ 64"
  shows "multi_loop cfg env lock ents hbuflen (hbuf, ch, k) = None"
proof -
  from rand_pick_all_rejected [OF assms(1,2)] obtain j0 k' where
    rp: "rand_pick env hbuf ents hbuflen (challen ch) lock 0 k = Returns (j0, k')"
    and j0: "0 \<le> j0" "j0 < ents" by blast
  from fallback_scan_diverges [OF assms(1) j0]
  have fs: "fallback_scan hbuf ents hbuflen (challen ch) lock j0 = None" .
  show ?thesis
    using assms(3,4) rp fs by (subst multi_loop.simps) simp
qed

lemma demo_same_header:
  "read_header_vals default_config ([], demo_same_file) = Some ([10, 1, 12, 4], demo_same_stream)"
  by code_simp

lemma demo_same_rows:
  "read_rows 10 13 0 demo_same_stream [] 0 (- 1) = Returns (True, demo_same_hbuf, 10, 0)"
  by code_simp

lemma demo_same_rejected:
  "\<forall>j. 0 \<le> j \<and> j < 10 \<longrightarrow> rejected demo_same_hbuf 13 1 ''B'' j = Some True"
proof -
  have "list_all (\<lambda>j. rejected demo_same_hbuf 13 1 ''B'' j = Some True) [0..9]"
    by code_simp
  then show ?thesis by (auto simp: list_all_iff)
qed

lemma prepare_select_busy:
  assumes "0 \<le> challen c" and "nat (challen c) < challenge_size cfg"
    and "sel_arr c \<noteq> []" and "hash_arr c \<noteq> []" and "alloc_ok env 5" and "0 \<le> hlen c"
    and "and (flags c) OTPW_NOLOCK = 0"
    and "\<And>label. lock_loop cfg env label path 0 = (Busy, ops)"
  shows "prepare_select cfg env c path hbuflen hbuf j =
     prepare_multi cfg env
       (c\<lparr>challenge := cstr (take (nat (challen c)) (drop (nat (j * hbuflen)) hbuf)),
          selection := Live ((sel_arr c)[0 := j]),
          hash := Live ((hash_arr c)[0 := Some (cstr (take (nat (hlen c))
                                   (drop (nat (j * hbuflen + challen c)) hbuf)))])\<rparr>)
       path hbuflen hbuf ops"
  using assms by (simp add: prepare_select_def Let_def)

lemma prepare_multi_reads_lock:
  assumes "readlink_res env = Readlink_ok t" and "t \<noteq> []"
    and "int (length (cstr (take 80 t))) = challen c"
  shows "prepare_multi cfg env c path hbuflen hbuf ops =
           multi_stage cfg env (c\<lparr>challenge := []\<rparr>) (cstr (take 80 t)) hbuflen hbuf ops"
  using assms by (simp add: prepare_multi_def read_lock_def Let_def)

lemma multi_stage_diverges:
  assumes "multi_loop cfg env lock (entries c) hbuflen (hbuf, c, 0) = None"
    and "otpw_multi cfg + 1 \<le> 2147483647"
    and "otpw_multi cfg + 1 \<le> remaining c" and "10 \<le> remaining c"
  shows "multi_stage cfg env c lock hbuflen hbuf ops = None"
  using assms by (simp add: multi_stage_def)

text \<open>
  Claim C10 as stated does not hold: on a table that passes the header and line checks
  and has ten live entries, with the lock pointing to \<^verbatim>\<open>B\<close>, every row is rejected by the
  comparison with the target of the lock, the fallback scan never ends and
  \<^verbatim>\<open>otpw_prepare\<close> does not return.
\<close>

theorem prepare_never_returns_counterexample:
  "otpw_prepare default_config (demo_env demo_same_file (Readlink_ok ''B'') (\<lambda>n. 0)) demo_handle0
     (Some demo_user) 0 = None"
proof -
  let ?env = "demo_env demo_same_file (Readlink_ok ''B'') (\<lambda>n. 0)"
  let ?cfg = default_config
  let ?lp = "''/home/u/.otpw.lock''"
  define ch3 where "ch3 = demo_handle0\<lparr>passwords := 0, remaining := - 1, entries := - 1,
      pwlen := 0, locked := False, challenge := [], flags := 0, filename := Live ''/home/u/.otpw'',
      lockfilename := Live ?lp, selection := Live [0, 0, 0], hash := Live [None, None, None],
      uid := 1000, gid := 100\<rparr>"
  have A: "otpw_prepare ?cfg ?env demo_handle0 (Some demo_user) 0 =
             prepare_table ?cfg ?env ch3 ?lp demo_same_file"
    by (simp add: otpw_prepare_def Let_def demo_env_def default_config_def demo_user_def ch3_def
          demo_handle0_def numeral_3_eq_3)
  define chB where "chB = ch3\<lparr>entries := 10, challen := 1, hlen := 12, pwlen := 4, remaining := 10\<rparr>"
  have sh: "store_header ch3 [10, 1, 12, 4] = ch3\<lparr>entries := 10, challen := 1, hlen := 12, pwlen := 4\<rparr>"
    by (simp add: store_header_def)
  have ci: "c_int 13 = 13" "c_int 130 = 130" "c_int 6 = 6"
    by (simp_all add: c_int_id)
  have al: "alloc_ok ?env 4" "alloc_ok ?env 5" by (simp_all add: demo_env_def)
  have B: "prepare_table ?cfg ?env ch3 ?lp demo_same_file =
             prepare_select ?cfg ?env chB ?lp 13 demo_same_hbuf 0"
    unfolding prepare_table_def demo_same_header
    by (simp add: sh Let_def default_config_def ci al demo_same_rows chB_def)
  have fresh: "lock_loop ?cfg ?env label ?lp 0 = (Busy, [])" for label
    by (rule lock_loop_fresh [where age = 60]) (simp_all add: demo_env_def default_config_def)
  define chC where "chC = chB\<lparr>challenge := cstr (take (nat (challen chB)) (drop (nat (0 * 13)) demo_same_hbuf)),
          selection := Live ((sel_arr chB)[0 := 0]),
          hash := Live ((hash_arr chB)[0 := Some (cstr (take (nat (hlen chB))
                                   (drop (nat (0 * 13 + challen chB)) demo_same_hbuf)))])\<rparr>"
  have C: "prepare_select ?cfg ?env chB ?lp 13 demo_same_hbuf 0 =
             prepare_multi ?cfg ?env chC ?lp 13 demo_same_hbuf []"
    unfolding chC_def
    by (rule prepare_select_busy [OF _ _ _ _ al(2) _ _ fresh])
       (simp_all add: chB_def ch3_def default_config_def sel_arr_def hash_arr_def OTPW_NOLOCK_def)
  have fC: "challen chC = 1" "remaining chC = 10" "entries chC = 10" "passwords chC = 0"
    by (simp_all add: chC_def chB_def ch3_def)
  have lk: "cstr ''B'' = ''B''" by (simp add: cstr_def NUL_def)
  have D: "prepare_multi ?cfg ?env chC ?lp 13 demo_same_hbuf [] =
             multi_stage ?cfg ?env (chC\<lparr>challenge := []\<rparr>) ''B'' 13 demo_same_hbuf []"
    using prepare_multi_reads_lock [of ?env "''B''" chC ?cfg ?lp 13 demo_same_hbuf "[]"]
    by (simp add: lk fC demo_env_def)
  have "multi_loop ?cfg ?env ''B'' 10 13 (demo_same_hbuf, chC\<lparr>challenge := []\<rparr>, 0) = None"
    by (rule multi_loop_diverges) (simp_all add: fC demo_same_rejected default_config_def)
  then have E: "multi_stage ?cfg ?env (chC\<lparr>challenge := []\<rparr>) ''B'' 13 demo_same_hbuf [] = None"
    by (intro multi_stage_diverges) (simp_all add: fC default_config_def)
  from A B C D E show ?thesis by simp
qed

lemma demo_same_acceptable:
  "acceptable_count demo_same_hbuf 10 13 1 ''Z'' = 10"
  by code_simp

lemma demo_same_table_ok:
  "table_ok 10 13 1 12 demo_same_hbuf"
  by code_simp

theorem multi_loop_terminates_witness:
  "table_ok 10 13 (challen demo_same_handle) (hlen demo_same_handle) demo_same_hbuf \<and>
   0 \<le> passwords demo_same_handle \<and>
   length (sel_arr demo_same_handle) = nat (otpw_multi default_config) \<and>
   length (hash_arr demo_same_handle) = nat (otpw_multi default_config) \<and>
   otpw_multi default_config - passwords demo_same_handle
     \<le> int (acceptable_count demo_same_hbuf 10 13 (challen demo_same_handle) ''Z'') \<and>
   (\<exists>ch'. multi_loop default_config (demo_env demo_same_file (Readlink_ok ''Z'') (\<lambda>n. 0)) ''Z'' 10 13
            (demo_same_hbuf, demo_same_handle, 0) = Some (Returns ch'))"
proof -
  have f: "challen demo_same_handle = 1" "hlen demo_same_handle = 12"
    "passwords demo_same_handle = 0" "sel_arr demo_same_handle = [0, 0, 0]"
    "hash_arr demo_same_handle = [None, None, None]" "otpw_multi default_config = 3"
    by (simp_all add: demo_same_handle_def sel_arr_def hash_arr_def default_config_def)
  show ?thesis
    using multi_loop_terminates [of 10 13 demo_same_handle demo_same_hbuf default_config "''Z''"
        "demo_env demo_same_file (Readlink_ok ''Z'') (\<lambda>n. 0)" 0]
    by (simp add: f demo_same_acceptable demo_same_table_ok)
qed

end
